theory Spec2Isabelle
  imports
    Main
    "HOL-Library.AList"
    "HOL-Library.Char_ord"
    "HOL-Library.List_Lexorder"
    "HOL-Library.Sublist"
begin

section \<open>Python values, strings and dictionaries\<close>

text \<open>
  The records handled by \<^verbatim>\<open>lead_scraper.py\<close> and \<^verbatim>\<open>social_media_automation.py\<close> are
  Python dictionaries from strings to strings, \<^verbatim>\<open>None\<close>, integers, booleans and
  lists of strings.
  A string is a list of 8-bit characters (the UTF-8 bytes of the Python text); the
  case mapping and the white space of \<^verbatim>\<open>str.lower\<close> and \<^verbatim>\<open>str.strip\<close> are those of
  the ASCII range, every other byte is kept as it is.
\<close>

datatype pyval = Str string | NoneV | IntV int | BoolV bool | ListV "string list"

definition digit_char :: "nat \<Rightarrow> char" where
  "digit_char d = ''0123456789'' ! d"

fun str_nat :: "nat \<Rightarrow> string" where
  "str_nat n = (if n < 10 then [digit_char n] else str_nat (n div 10) @ [digit_char (n mod 10)])"

declare str_nat.simps [simp del]

definition str_int :: "int \<Rightarrow> string" where
  "str_int i = (if i < 0 then CHR ''-'' # str_nat (nat (- i)) else str_nat (nat i))"

text \<open>\<^verbatim>\<open>sep.join(parts)\<close>.\<close>

fun join :: "string \<Rightarrow> string list \<Rightarrow> string" where
  "join sep [] = []"
| "join sep [x] = x"
| "join sep (x # y # ys) = x @ sep @ join sep (y # ys)"

text \<open>
  \<^verbatim>\<open>repr(s)\<close> of a string: in single quotes, or in double quotes when the string has
  a single quote and no double quote; the quote, the backslash and the control
  characters are escaped.
\<close>

definition hex_digit :: "nat \<Rightarrow> char" where
  "hex_digit d = ''0123456789abcdef'' ! d"

definition repr_char :: "char \<Rightarrow> char \<Rightarrow> string" where
  "repr_char quote c =
     (if c = quote \<or> c = CHR 0x5C then [CHR 0x5C, c]
      else if c = CHR 0x09 then [CHR 0x5C, CHR ''t'']
      else if c = CHR ''\<newline>'' then [CHR 0x5C, CHR ''n'']
      else if c = CHR 0x0D then [CHR 0x5C, CHR ''r'']
      else if (of_char c :: nat) < 32 \<or> (of_char c :: nat) = 127
           then [CHR 0x5C, CHR ''x'', hex_digit ((of_char c :: nat) div 16), hex_digit ((of_char c :: nat) mod 16)]
      else [c])"

definition repr_str :: "string \<Rightarrow> string" where
  "repr_str s =
     (let quote = (if CHR 0x27 \<in> set s \<and> CHR 0x22 \<notin> set s then CHR 0x22 else CHR 0x27)
      in quote # concat (map (repr_char quote) s) @ [quote])"

text \<open>\<^verbatim>\<open>str(v)\<close>, which is also what \<^verbatim>\<open>str.format\<close> inserts for a field without format spec.\<close>

fun str :: "pyval \<Rightarrow> string" where
  "str (Str s) = s"
| "str NoneV = ''None''"
| "str (IntV i) = str_int i"
| "str (BoolV b) = (if b then ''True'' else ''False'')"
| "str (ListV xs) = ''['' @ join '', '' (map repr_str xs) @ '']''"

text \<open>The truth value of a value, as \<^verbatim>\<open>if v:\<close> takes it.\<close>

fun truthy :: "pyval \<Rightarrow> bool" where
  "truthy (Str s) = (s \<noteq> [])"
| "truthy NoneV = False"
| "truthy (IntV i) = (i \<noteq> 0)"
| "truthy (BoolV b) = b"
| "truthy (ListV xs) = (xs \<noteq> [])"

definition lower_char :: "char \<Rightarrow> char" where
  "lower_char c =
     (case map_of (zip ''ABCDEFGHIJKLMNOPQRSTUVWXYZ'' ''abcdefghijklmnopqrstuvwxyz'') c of
        Some l \<Rightarrow> l
      | None \<Rightarrow> c)"

definition lower :: "string \<Rightarrow> string" where
  "lower s = map lower_char s"

definition is_space :: "char \<Rightarrow> bool" where
  "is_space c = ((of_char c :: nat) \<in> {9, 10, 11, 12, 13, 28, 29, 30, 31, 32})"

definition strip :: "string \<Rightarrow> string" where
  "strip s = rev (dropWhile is_space (rev (dropWhile is_space s)))"

text \<open>\<^verbatim>\<open>needle in haystack\<close> on strings: \<open>needle\<close> occurs as a contiguous block.\<close>

fun contains :: "string \<Rightarrow> string \<Rightarrow> bool" where
  "contains needle [] = (needle = [])"
| "contains needle (c # cs) = (prefix needle (c # cs) \<or> contains needle cs)"

text \<open>
  A dictionary keeps its keys in insertion order: an association list with one pair
  per key. Storing under a present key replaces the value in place, storing under a
  new key appends the pair (\<^const>\<open>AList.update\<close>).
\<close>

type_synonym dict = "(string \<times> pyval) list"

definition dict_keys :: "dict \<Rightarrow> string list" where
  "dict_keys d = map fst d"

definition dict_values :: "dict \<Rightarrow> pyval list" where
  "dict_values d = map snd d"

definition dict_get :: "dict \<Rightarrow> string \<Rightarrow> pyval option" where
  "dict_get d k = map_of d k"

definition dict_set :: "string \<Rightarrow> pyval \<Rightarrow> dict \<Rightarrow> dict" where
  "dict_set k v d = AList.update k v d"

text \<open>\<^verbatim>\<open>d.get(k, default)\<close>.\<close>

definition get_default :: "dict \<Rightarrow> string \<Rightarrow> pyval \<Rightarrow> pyval" where
  "get_default d k dflt = (case dict_get d k of None \<Rightarrow> dflt | Some v \<Rightarrow> v)"

section \<open>The scraper object and its store\<close>

text \<open>
  \<^verbatim>\<open>LeadScraper.leads\<close> is a list of references to dictionaries, and
  \<^verbatim>\<open>filter_quality_leads\<close> writes into those dictionaries through the references.
  The store \<open>objs\<close> maps a reference to the dictionary it denotes; \<open>next_ref\<close> is the
  first reference not yet handed out by a dictionary display \<^verbatim>\<open>{...}\<close>.
\<close>

type_synonym ref = nat

record scraper =
  objs :: "ref \<Rightarrow> dict"
  next_ref :: ref
  leads :: "ref list"

definition init_scraper :: scraper where
  "init_scraper = \<lparr>objs = (\<lambda>_. []), next_ref = 0, leads = []\<rparr>"

text \<open>Every stored reference was handed out, and no dictionary is stored twice.\<close>

definition wf_scraper :: "scraper \<Rightarrow> bool" where
  "wf_scraper s = (distinct (leads s) \<and> list_all (\<lambda>r. r < next_ref s) (leads s))"

section \<open>Filtering: \<^verbatim>\<open>LeadScraper.filter_quality_leads\<close>\<close>

text \<open>\<^verbatim>\<open>' '.join(str(v).lower() for v in lead.values())\<close>\<close>

definition lead_text :: "dict \<Rightarrow> string" where
  "lead_text lead = join '' '' (map (\<lambda>v. lower (str v)) (dict_values lead))"

text \<open>\<^verbatim>\<open>keyword.lower() in lead_text\<close>\<close>

definition keyword_hit :: "string \<Rightarrow> string \<Rightarrow> bool" where
  "keyword_hit text keyword = contains (lower keyword) text"

text \<open>\<^verbatim>\<open>sum(keyword.lower() in lead_text for keyword in keywords)\<close>: each \<^verbatim>\<open>True\<close> counts 1.\<close>

definition hit_sum :: "string \<Rightarrow> string list \<Rightarrow> int" where
  "hit_sum text keywords =
     sum_list (map (\<lambda>keyword. if keyword_hit text keyword then 1 else 0) keywords)"

text \<open>
  The loop \<^verbatim>\<open>for lead in self.leads\<close>: \<open>h\<close> is the store, \<open>quality\<close> the list
  \<^verbatim>\<open>quality_leads\<close> built so far.
\<close>

fun filter_loop :: "string list \<Rightarrow> ref list \<Rightarrow> (ref \<Rightarrow> dict) \<Rightarrow> ref list \<Rightarrow> (ref \<Rightarrow> dict) \<times> ref list" where
  "filter_loop keywords [] h quality = (h, quality)"
| "filter_loop keywords (r # rs) h quality =
     (let text = lead_text (h r) in
      if list_ex (keyword_hit text) keywords
      then filter_loop keywords rs
             (h(r := dict_set ''match_score'' (IntV (hit_sum text keywords)) (h r)))
             (quality @ [r])
      else filter_loop keywords rs h quality)"

text \<open>
  The sort key \<^verbatim>\<open>x.get('match_score', 0)\<close>. Every dictionary that reaches the sort
  has just received an integer under \<^verbatim>\<open>match_score\<close> (lemma \<open>filter_loop_scored\<close>
  below), so the other kinds of value do not occur there.
\<close>

definition sort_score :: "dict \<Rightarrow> int" where
  "sort_score d = (case get_default d ''match_score'' (IntV 0) of IntV n \<Rightarrow> n | BoolV b \<Rightarrow> of_bool b | _ \<Rightarrow> 0)"

text \<open>
  \<^verbatim>\<open>quality_leads.sort(key=..., reverse=True)\<close>: Python's sort is stable, also with
  \<^verbatim>\<open>reverse=True\<close>; it is the stable insertion sort on the negated key.
\<close>

definition sort_reverse :: "('a \<Rightarrow> int) \<Rightarrow> 'a list \<Rightarrow> 'a list" where
  "sort_reverse key xs = sort_key (\<lambda>x. - key x) xs"

text \<open>The method returns \<^verbatim>\<open>quality_leads\<close>; the scraper is returned with the updated store.\<close>

definition filter_quality_leads :: "string list \<Rightarrow> scraper \<Rightarrow> ref list \<times> scraper" where
  "filter_quality_leads keywords s =
     (case filter_loop keywords (leads s) (objs s) [] of
        (h, quality) \<Rightarrow> (sort_reverse (\<lambda>r. sort_score (h r)) quality, s\<lparr>objs := h\<rparr>))"

text \<open>
  Names for what one pass of the loop tests and stores: whether some keyword hits the
  text of a lead, and the lead with its score stored.
\<close>

definition matches :: "string list \<Rightarrow> dict \<Rightarrow> bool" where
  "matches keywords lead = list_ex (keyword_hit (lead_text lead)) keywords"

definition scored :: "string list \<Rightarrow> dict \<Rightarrow> dict" where
  "scored keywords lead = dict_set ''match_score'' (IntV (hit_sum (lead_text lead) keywords)) lead"




definition has_int_score :: "dict \<Rightarrow> bool" where
  "has_int_score d = (\<exists>n. dict_get d ''match_score'' = Some (IntV n))"

text \<open>The match score a stored lead carries, if any.\<close>

definition match_score :: "scraper \<Rightarrow> ref \<Rightarrow> pyval option" where
  "match_score s r = dict_get (objs s r) ''match_score''"

text \<open>A scraper that holds two leads, for the examples.\<close>

definition two_leads :: scraper where
  "two_leads =
     \<lparr>objs = (objs init_scraper)
               (0 := [(''name'', Str ''Ann''), (''headline'', Str ''Sales'')],
                1 := [(''name'', Str ''Bob AI''), (''handle'', Str ''@bob'')]),
      next_ref = 2,
      leads = [0, 1]\<rparr>"

text \<open>The same with a third lead.\<close>

definition three_leads :: scraper where
  "three_leads =
     \<lparr>objs = (objs two_leads)(2 := [(''name'', Str ''Cara'')]),
      next_ref = 3,
      leads = [0, 1, 2]\<rparr>"

section \<open>Persisting: \<^verbatim>\<open>LeadScraper.save_leads_to_csv\<close>\<close>

text \<open>The loop \<^verbatim>\<open>for lead in self.leads: fieldnames.update(lead.keys())\<close>.\<close>

fun collect_fieldnames :: "dict list \<Rightarrow> string set \<Rightarrow> string set" where
  "collect_fieldnames [] fieldnames = fieldnames"
| "collect_fieldnames (lead # rest) fieldnames = collect_fieldnames rest (fieldnames \<union> set (dict_keys lead))"

text \<open>
  A cell written by \<^verbatim>\<open>csv.DictWriter\<close>: a key the row lacks gives the \<^verbatim>\<open>restval\<close>
  \<^verbatim>\<open>''\<close>, \<^verbatim>\<open>None\<close> is written as the empty string, anything else through \<^verbatim>\<open>str\<close>.
\<close>

fun csv_cell :: "pyval option \<Rightarrow> string" where
  "csv_cell None = []"
| "csv_cell (Some NoneV) = []"
| "csv_cell (Some v) = str v"

definition csv_row :: "string list \<Rightarrow> dict \<Rightarrow> string list" where
  "csv_row fieldnames lead = map (\<lambda>k. csv_cell (dict_get lead k)) fieldnames"

record csv_file =
  path :: string
  header :: "string list"
  rows :: "string list list"

text \<open>
  \<open>filename\<close> is the optional argument, \<open>stamp\<close> the formatted clock reading of the
  default name, \<open>io_ok\<close> tells whether opening and writing the file succeed. The result
  is the file written, whose \<open>path\<close> the method returns; \<open>None\<close> when the method returns
  \<^verbatim>\<open>None\<close> (no leads, or the \<^verbatim>\<open>except\<close> branch).
\<close>

definition save_leads_to_csv :: "string option \<Rightarrow> string \<Rightarrow> bool \<Rightarrow> scraper \<Rightarrow> csv_file option" where
  "save_leads_to_csv filename stamp io_ok s =
     (let filename' = (case filename of
                         None \<Rightarrow> ''leads_'' @ stamp @ ''.csv''
                       | Some f \<Rightarrow> if f = [] then ''leads_'' @ stamp @ ''.csv'' else f)
      in if leads s = [] then None
         else
           (let dicts = map (objs s) (leads s);
                fieldnames = collect_fieldnames dicts {};
                columns = sorted_list_of_set fieldnames
            in if io_ok
               then Some \<lparr>path = filename', header = columns, rows = map (csv_row columns) dicts\<rparr>
               else None))"

section \<open>The browser as the environment\<close>

text \<open>
  The methods drive a Playwright page. What the page answers is not decided by the
  code, so it is a parameter of the model; what the code asks of the page is returned
  as the list of the calls it made, in order. The waits (\<^verbatim>\<open>asyncio.sleep\<close>) and the
  logging are left out of that list.
\<close>

datatype action =
    NewPage
  | Goto string
  | Fill string pyval
  | Click string
  | Evaluate string
  | LocatorAll string
  | LocatorFirst string
  | SetInputFiles string pyval
  | Press string string
  | ClosePage
  | HttpGet string dict
  | HttpPost string dict

text \<open>
  One use of a page, from \<^verbatim>\<open>self.context.new_page()\<close> to \<^verbatim>\<open>page.close()\<close>:
  whether opening succeeds, which call on the page inside the \<^verbatim>\<open>try\<close> block is the
  first to raise (its position among those calls and the text of the exception), and
  whether closing succeeds.
\<close>

record page_run =
  new_page_ok :: bool
  step_fail :: "(nat \<times> string) option"
  close_ok :: bool

datatype error = PageOpenFailed | PageCloseFailed

text \<open>
  The calls of a \<^verbatim>\<open>try\<close> block run in order up to the first that raises: the calls
  made, and the text of the exception if one was raised.
\<close>

definition run_steps :: "(nat \<times> string) option \<Rightarrow> action list \<Rightarrow> action list \<times> string option" where
  "run_steps fail steps =
     (case fail of
        None \<Rightarrow> (steps, None)
      | Some (i, msg) \<Rightarrow> if i < length steps then (take (Suc i) steps, Some msg) else (steps, None))"

text \<open>\<^verbatim>\<open>not v\<close> for a value of \<^verbatim>\<open>os.getenv\<close>: it is \<^verbatim>\<open>None\<close> or the empty string.\<close>

definition not_set :: "string option \<Rightarrow> bool" where
  "not_set v = (case v of None \<Rightarrow> True | Some x \<Rightarrow> x = [])"

text \<open>\<^verbatim>\<open>xs[:n]\<close>: a negative \<open>n\<close> counts from the end.\<close>

definition slice_to :: "int \<Rightarrow> 'a list \<Rightarrow> 'a list" where
  "slice_to n xs = (if 0 \<le> n then take (nat n) xs else take (length xs - nat (- n)) xs)"

text \<open>\<^verbatim>\<open>s.split(c)\<close> for a separator of one character, and \<^verbatim>\<open>xs[i]\<close> for \<open>i \<ge> 0\<close>.\<close>

fun split_on :: "char \<Rightarrow> string \<Rightarrow> string list" where
  "split_on c [] = [[]]"
| "split_on c (x # xs) =
     (if x = c then [] # split_on c xs
      else (case split_on c xs of w # ws \<Rightarrow> (x # w) # ws | [] \<Rightarrow> [[x]]))"

definition index :: "'a list \<Rightarrow> nat \<Rightarrow> 'a option" where
  "index xs i = (if i < length xs then Some (xs ! i) else None)"

section \<open>Extraction: \<^verbatim>\<open>scrape_linkedin_leads\<close> and \<^verbatim>\<open>scrape_twitter_leads\<close>\<close>

text \<open>
  The environment of one extraction run: the page, the process environment read by
  \<^verbatim>\<open>os.getenv\<close>, the containers that \<^verbatim>\<open>page.locator(...).all()\<close> returns, and the
  clock (\<^verbatim>\<open>datetime.now().isoformat()\<close> while the container at a position is mapped).
\<close>

record 'c scrape_env = page_run +
  getenv :: "string \<Rightarrow> string option"
  containers :: "'c list"
  clock :: "nat \<Rightarrow> string"

text \<open>
  A LinkedIn result container, by what its four locator calls give: \<open>None\<close> when the
  call raises. \<^verbatim>\<open>get_attribute\<close> may also return \<^verbatim>\<open>None\<close>, which is \<open>Some None\<close>.
\<close>

record profile =
  title_text :: "string option"
  primary_subtitle :: "string option"
  secondary_subtitle :: "string option"
  link_href :: "string option option"

text \<open>The body of the inner \<^verbatim>\<open>try\<close>: the lead, or \<open>None\<close> when a call raised.\<close>

definition linkedin_lead :: "string \<Rightarrow> profile \<Rightarrow> dict option" where
  "linkedin_lead now p =
     (case title_text p of None \<Rightarrow> None | Some name \<Rightarrow>
      case primary_subtitle p of None \<Rightarrow> None | Some headline \<Rightarrow>
      case secondary_subtitle p of None \<Rightarrow> None | Some location \<Rightarrow>
      case link_href p of None \<Rightarrow> None | Some profile_url \<Rightarrow>
        Some [(''name'', Str (strip name)),
              (''headline'', Str (strip headline)),
              (''location'', Str (strip location)),
              (''profile_url'', (case profile_url of None \<Rightarrow> NoneV | Some u \<Rightarrow> Str u)),
              (''platform'', Str ''linkedin''),
              (''found_date'', Str now)])"

text \<open>A tweet container, by what its two \<^verbatim>\<open>inner_text\<close> calls give.\<close>

record tweet =
  user_name :: "string option"
  tweet_text :: "string option"

definition twitter_lead :: "string \<Rightarrow> string \<Rightarrow> tweet \<Rightarrow> dict option" where
  "twitter_lead hashtag now t =
     (case user_name t of None \<Rightarrow> None | Some username \<Rightarrow>
      case tweet_text t of None \<Rightarrow> None | Some text \<Rightarrow>
      case (if CHR ''\<newline>'' \<in> set username then index (split_on CHR ''\<newline>'' username) 1 else Some [])
        of None \<Rightarrow> None | Some handle_match \<Rightarrow>
      case (if CHR ''\<newline>'' \<in> set username then index (split_on CHR ''\<newline>'' username) 0 else Some username)
        of None \<Rightarrow> None | Some name \<Rightarrow>
        Some [(''name'', Str name),
              (''handle'', Str handle_match),
              (''tweet_text'', Str (take 200 (strip text))),
              (''platform'', Str ''twitter''),
              (''hashtag'', Str hashtag),
              (''found_date'', Str now)])"

text \<open>
  The loop over the containers: \<open>lead_of i c\<close> maps the container \<open>c\<close> at position
  \<open>i\<close>; a container whose mapping raises is skipped (\<^verbatim>\<open>continue\<close>).
\<close>

fun extract_loop :: "(nat \<Rightarrow> 'c \<Rightarrow> dict option) \<Rightarrow> nat \<Rightarrow> 'c list \<Rightarrow> dict list \<Rightarrow> dict list" where
  "extract_loop lead_of i [] found = found"
| "extract_loop lead_of i (c # cs) found =
     (case lead_of i c of
        None \<Rightarrow> extract_loop lead_of (Suc i) cs found
      | Some lead \<Rightarrow> extract_loop lead_of (Suc i) cs (found @ [lead]))"

text \<open>
  \<^verbatim>\<open>self.leads.extend(leads); return leads\<close>: the dictionaries built by the loop get
  the next references, which are appended to the stored list and returned.
\<close>

definition store_leads :: "dict list \<Rightarrow> scraper \<Rightarrow> ref list \<times> scraper" where
  "store_leads found s =
     (let refs = [next_ref s ..< next_ref s + length found]
      in (refs,
          s\<lparr>objs := (\<lambda>r. if next_ref s \<le> r \<and> r < next_ref s + length found
                           then found ! (r - next_ref s) else objs s r),
            next_ref := next_ref s + length found,
            leads := leads s @ refs\<rparr>))"

text \<open>
  The end of a scraping method. \<open>found\<close> is \<open>None\<close> when the method left through
  \<^verbatim>\<open>return []\<close> inside the \<^verbatim>\<open>try\<close>; otherwise it is the list \<^verbatim>\<open>leads\<close> as the
  \<^verbatim>\<open>try\<close> statement left it. The \<^verbatim>\<open>finally\<close> clause closes the page first: when that
  raises, the exception leaves the method and nothing is stored.
\<close>

definition finish_scrape ::
  "'c scrape_env \<Rightarrow> action list \<Rightarrow> dict list option \<Rightarrow> scraper \<Rightarrow> (error + ref list) \<times> scraper \<times> action list" where
  "finish_scrape env calls found s =
     (if \<not> close_ok env then (Inl PageCloseFailed, s, NewPage # calls @ [ClosePage])
      else case found of
             None \<Rightarrow> (Inr [], s, NewPage # calls @ [ClosePage])
           | Some ds \<Rightarrow> (case store_leads ds s of
                          (refs, s') \<Rightarrow> (Inr refs, s', NewPage # calls @ [ClosePage])))"

definition linkedin_steps :: "string \<Rightarrow> string \<Rightarrow> string \<Rightarrow> action list" where
  "linkedin_steps linkedin_email linkedin_password search_query =
     [Goto ''https://www.linkedin.com/login'',
      Fill ''input[name=\"session_key\"]'' (Str linkedin_email),
      Fill ''input[name=\"session_password\"]'' (Str linkedin_password),
      Click ''button[type=\"submit\"]'',
      Goto (''https://www.linkedin.com/search/results/people/?keywords='' @ search_query),
      Evaluate ''window.scrollTo(0, document.body.scrollHeight)'',
      Evaluate ''window.scrollTo(0, document.body.scrollHeight)'',
      Evaluate ''window.scrollTo(0, document.body.scrollHeight)'',
      LocatorAll ''.entity-result'']"

text \<open>
  The result is what the method returns or the exception that leaves it, the scraper
  afterwards, and the calls made on the browser.
\<close>

definition scrape_linkedin_leads ::
  "profile scrape_env \<Rightarrow> string \<Rightarrow> int \<Rightarrow> scraper \<Rightarrow> (error + ref list) \<times> scraper \<times> action list" where
  "scrape_linkedin_leads env search_query max_results s =
     (if \<not> new_page_ok env then (Inl PageOpenFailed, s, [NewPage])
      else
        (case (getenv env ''LINKEDIN_EMAIL'', getenv env ''LINKEDIN_PASSWORD'') of
           (Some linkedin_email, Some linkedin_password) \<Rightarrow>
             if linkedin_email = [] \<or> linkedin_password = []
             then finish_scrape env [] None s
             else
               (case run_steps (step_fail env)
                       (linkedin_steps linkedin_email linkedin_password search_query) of
                  (calls, Some msg) \<Rightarrow> finish_scrape env calls (Some []) s
                | (calls, None) \<Rightarrow>
                    finish_scrape env calls
                      (Some (extract_loop (\<lambda>i. linkedin_lead (clock env i)) 0
                               (slice_to max_results (containers env)) []))
                      s)
         | _ \<Rightarrow> finish_scrape env [] None s))"

definition twitter_steps :: "string \<Rightarrow> action list" where
  "twitter_steps hashtag =
     [Goto (''https://twitter.com/search?q='' @ hashtag @ ''&f=live''),
      Evaluate ''window.scrollTo(0, document.body.scrollHeight)'',
      Evaluate ''window.scrollTo(0, document.body.scrollHeight)'',
      Evaluate ''window.scrollTo(0, document.body.scrollHeight)'',
      Evaluate ''window.scrollTo(0, document.body.scrollHeight)'',
      Evaluate ''window.scrollTo(0, document.body.scrollHeight)'',
      LocatorAll ''[data-testid=\"tweet\"]'']"

definition scrape_twitter_leads ::
  "tweet scrape_env \<Rightarrow> string \<Rightarrow> int \<Rightarrow> scraper \<Rightarrow> (error + ref list) \<times> scraper \<times> action list" where
  "scrape_twitter_leads env hashtag max_results s =
     (if \<not> new_page_ok env then (Inl PageOpenFailed, s, [NewPage])
      else
        (case run_steps (step_fail env) (twitter_steps hashtag) of
           (calls, Some msg) \<Rightarrow> finish_scrape env calls (Some []) s
         | (calls, None) \<Rightarrow>
             finish_scrape env calls
               (Some (extract_loop (\<lambda>i. twitter_lead hashtag (clock env i)) 0
                        (slice_to max_results (containers env)) []))
               s))"

text \<open>Whether the mapping of a container goes through, whatever the clock shows.\<close>

definition profile_ok :: "profile \<Rightarrow> bool" where
  "profile_ok p = (title_text p \<noteq> None \<and> primary_subtitle p \<noteq> None
                   \<and> secondary_subtitle p \<noteq> None \<and> link_href p \<noteq> None)"

definition tweet_ok :: "tweet \<Rightarrow> bool" where
  "tweet_ok t = (user_name t \<noteq> None \<and> tweet_text t \<noteq> None)"

text \<open>The containers with their positions, as the loop meets them.\<close>

definition numbered :: "'c list \<Rightarrow> (nat \<times> 'c) list" where
  "numbered cs = zip [0 ..< length cs] cs"

text \<open>
  Environments for the examples: the credentials are set, every call on the page goes
  through, and the result page shows the given containers.
\<close>

definition linkedin_page_of :: "profile list \<Rightarrow> profile scrape_env" where
  "linkedin_page_of cs =
     \<lparr>new_page_ok = True, step_fail = None, close_ok = True,
      getenv = [''LINKEDIN_EMAIL'' \<mapsto> ''me@example.org'', ''LINKEDIN_PASSWORD'' \<mapsto> ''secret''],
      containers = cs,
      clock = (\<lambda>_. ''2025-01-01T12:00:00'')\<rparr>"

definition twitter_page_of :: "tweet list \<Rightarrow> tweet scrape_env" where
  "twitter_page_of cs =
     \<lparr>new_page_ok = True, step_fail = None, close_ok = True,
      getenv = Map.empty,
      containers = cs,
      clock = (\<lambda>_. ''2025-01-01T12:00:00'')\<rparr>"

definition good_profile :: profile where
  "good_profile =
     \<lparr>title_text = Some ''Ann Lee '', primary_subtitle = Some ''Founder'',
      secondary_subtitle = Some ''Kampala'', link_href = Some (Some ''https://www.linkedin.com/in/ann'')\<rparr>"

definition blank_profile :: profile where
  "blank_profile =
     \<lparr>title_text = Some '' '', primary_subtitle = Some ''Founder'',
      secondary_subtitle = Some ''Kampala'', link_href = Some None\<rparr>"

definition broken_profile :: profile where
  "broken_profile =
     \<lparr>title_text = None, primary_subtitle = Some ''Founder'',
      secondary_subtitle = Some ''Kampala'', link_href = Some None\<rparr>"

definition ten_profiles :: "profile list" where
  "ten_profiles = replicate 4 good_profile @ [broken_profile] @ replicate 5 good_profile"

definition good_tweet :: tweet where
  "good_tweet = \<lparr>user_name = Some ''Ann Lee\<newline>@annlee'', tweet_text = Some ''Looking for a chatbot #smallbusiness''\<rparr>"

definition broken_tweet :: tweet where
  "broken_tweet = \<lparr>user_name = None, tweet_text = Some ''Promoted''\<rparr>"

text \<open>The same pages when the first call on the page raises: the site cannot be reached.\<close>

definition offline_linkedin :: "profile scrape_env" where
  "offline_linkedin = (linkedin_page_of [good_profile])\<lparr>step_fail := Some (0, ''net::ERR_INTERNET_DISCONNECTED'')\<rparr>"

definition offline_twitter :: "tweet scrape_env" where
  "offline_twitter = (twitter_page_of [good_tweet])\<lparr>step_fail := Some (0, ''net::ERR_INTERNET_DISCONNECTED'')\<rparr>"

text \<open>The LinkedIn page for a process that has no credentials in its environment.\<close>

definition no_credentials :: "profile scrape_env" where
  "no_credentials = (linkedin_page_of [good_profile])\<lparr>getenv := Map.empty\<rparr>"

section \<open>Posting: \<^verbatim>\<open>SocialMediaAutomation\<close>\<close>

text \<open>The credentials read by \<^verbatim>\<open>__init__\<close> from the process environment.\<close>

record automation =
  meta_token :: "string option"
  linkedin_email :: "string option"
  linkedin_password :: "string option"
  twitter_email :: "string option"
  twitter_password :: "string option"

text \<open>
  A call of \<^verbatim>\<open>requests\<close>: it raises (with the text of the exception), or it gives
  a response with a status code and a body, for which \<^verbatim>\<open>response.json()\<close> raises
  (\<open>Inl\<close>, with the text) or gives the decoded document.
\<close>

datatype 'a reply = Raises string | Reply nat "string + 'a"

text \<open>
  A decoded document of the Graph API, as far as the code looks into it: its value
  under \<^verbatim>\<open>id\<close> (\<^verbatim>\<open>None\<close> when absent) and the document as a whole, which is kept
  as an opaque value.
\<close>

record json_doc =
  doc_id :: pyval
  doc_value :: pyval

text \<open>
  An entry of the \<^verbatim>\<open>data\<close> list as \<^verbatim>\<open>post_to_instagram\<close> reads it: without the key
  \<^verbatim>\<open>instagram_business_account\<close>, with the key but no \<^verbatim>\<open>id\<close> below it (the lookup
  raises, with the text given), or with the id.
\<close>

datatype ig_page = NoAccount | AccountLookupRaises string | Account pyval

record post_env =
  fb_accounts :: "dict list reply"
  fb_feed :: "json_doc reply"
  ig_accounts :: "ig_page list reply"
  ig_media :: "json_doc reply"
  ig_publish :: "json_doc reply"
  linkedin_page :: page_run
  twitter_page :: page_run
  medium_page :: page_run
  path_exists :: "pyval \<Rightarrow> string + bool"
  now_iso :: string

definition failure :: "pyval \<Rightarrow> dict" where
  "failure e = [(''success'', BoolV False), (''error'', e)]"

text \<open>\<^verbatim>\<open>post_to_facebook\<close>: the result and the calls made. Nothing leaves its \<^verbatim>\<open>try\<close>.\<close>

definition post_to_facebook :: "automation \<Rightarrow> post_env \<Rightarrow> pyval \<Rightarrow> pyval \<Rightarrow> dict \<times> action list" where
  "post_to_facebook self env message image_url =
     (case meta_token self of
        None \<Rightarrow> (failure (Str ''META_ACCESS_TOKEN not set''), [])
      | Some token \<Rightarrow>
          if token = [] then (failure (Str ''META_ACCESS_TOKEN not set''), [])
          else
            let get = HttpGet ''https://graph.facebook.com/v18.0/me/accounts'' [(''access_token'', Str token)]
            in case fb_accounts env of
                 Raises e \<Rightarrow> (failure (Str e), [get])
               | Reply status body \<Rightarrow>
                   if status \<noteq> 200 then (failure (Str ''Failed to get page access''), [get])
                   else
                     (case body of
                        Inl e \<Rightarrow> (failure (Str e), [get])
                      | Inr [] \<Rightarrow> (failure (Str ''No pages found''), [get])
                      | Inr (page # _) \<Rightarrow>
                          (case dict_get page ''id'' of
                             None \<Rightarrow> (failure (Str (repr_str ''id'')), [get])
                           | Some page_id \<Rightarrow>
                          (case dict_get page ''access_token'' of
                             None \<Rightarrow> (failure (Str (repr_str ''access_token'')), [get])
                           | Some page_token \<Rightarrow>
                               let post_data = [(''message'', message), (''access_token'', page_token)];
                                   post_data = (if truthy image_url
                                                then dict_set ''link'' image_url post_data else post_data);
                                   post = HttpPost (''https://graph.facebook.com/v18.0/'' @ str page_id @ ''/feed'') post_data
                               in case fb_feed env of
                                    Raises e \<Rightarrow> (failure (Str e), [get, post])
                                  | Reply status' (Inl e) \<Rightarrow> (failure (Str e), [get, post])
                                  | Reply status' (Inr doc) \<Rightarrow>
                                      if status' = 200
                                      then ([(''success'', BoolV True),
                                             (''platform'', Str ''facebook''),
                                             (''post_id'', doc_id doc),
                                             (''url'', Str (''https://facebook.com/'' @ str (doc_id doc)))],
                                            [get, post])
                                      else (failure (doc_value doc), [get, post])))))"

text \<open>The loop of \<^verbatim>\<open>post_to_instagram\<close> over the pages, up to its \<^verbatim>\<open>break\<close>.\<close>

fun find_ig_account :: "ig_page list \<Rightarrow> string + pyval" where
  "find_ig_account [] = Inr NoneV"
| "find_ig_account (NoAccount # pages) = find_ig_account pages"
| "find_ig_account (AccountLookupRaises e # pages) = Inl e"
| "find_ig_account (Account a # pages) = Inr a"

definition post_to_instagram :: "automation \<Rightarrow> post_env \<Rightarrow> pyval \<Rightarrow> pyval \<Rightarrow> dict \<times> action list" where
  "post_to_instagram self env image_url caption =
     (case meta_token self of
        None \<Rightarrow> (failure (Str ''META_ACCESS_TOKEN not set''), [])
      | Some token \<Rightarrow>
          if token = [] then (failure (Str ''META_ACCESS_TOKEN not set''), [])
          else
            let get = HttpGet ''https://graph.facebook.com/v18.0/me/accounts''
                        [(''access_token'', Str token), (''fields'', Str ''instagram_business_account'')]
            in case ig_accounts env of
                 Raises e \<Rightarrow> (failure (Str e), [get])
               | Reply status (Inl e) \<Rightarrow> (failure (Str e), [get])
               | Reply status (Inr pages) \<Rightarrow>
                   (case find_ig_account pages of
                      Inl e \<Rightarrow> (failure (Str e), [get])
                    | Inr ig_account \<Rightarrow>
                        if \<not> truthy ig_account
                        then (failure (Str ''No Instagram business account linked''), [get])
                        else
                          let create = HttpPost (''https://graph.facebook.com/v18.0/'' @ str ig_account @ ''/media'')
                                         [(''image_url'', image_url), (''caption'', caption),
                                          (''access_token'', Str token)]
                          in case ig_media env of
                               Raises e \<Rightarrow> (failure (Str e), [get, create])
                             | Reply status' (Inl e) \<Rightarrow> (failure (Str e), [get, create])
                             | Reply status' (Inr doc) \<Rightarrow>
                                 if status' \<noteq> 200 then (failure (doc_value doc), [get, create])
                                 else
                                   let publish = HttpPost (''https://graph.facebook.com/v18.0/'' @ str ig_account @ ''/media_publish'')
                                                   [(''creation_id'', doc_id doc), (''access_token'', Str token)]
                                   in case ig_publish env of
                                        Raises e \<Rightarrow> (failure (Str e), [get, create, publish])
                                      | Reply status'' (Inl e) \<Rightarrow> (failure (Str e), [get, create, publish])
                                      | Reply status'' (Inr doc') \<Rightarrow>
                                          if status'' = 200
                                          then ([(''success'', BoolV True),
                                                 (''platform'', Str ''instagram''),
                                                 (''media_id'', doc_id doc')],
                                                [get, create, publish])
                                          else (failure (doc_value doc'), [get, create, publish])))"

text \<open>
  The three methods that drive a page share their frame: the page is opened before the
  \<^verbatim>\<open>try\<close>, the \<^verbatim>\<open>except\<close> clause turns an exception of the block into a failure
  result, and the \<^verbatim>\<open>finally\<close> clause closes the page. \<open>body\<close> gives the calls made
  in the block and its result. An exception of \<^verbatim>\<open>new_page\<close> or of \<^verbatim>\<open>page.close\<close>
  leaves the method.
\<close>

definition with_page :: "page_run \<Rightarrow> (action list \<times> dict) \<Rightarrow> (error + dict) \<times> action list" where
  "with_page pg body =
     (if \<not> new_page_ok pg then (Inl PageOpenFailed, [NewPage])
      else case body of
             (calls, result) \<Rightarrow>
               if \<not> close_ok pg then (Inl PageCloseFailed, NewPage # calls @ [ClosePage])
               else (Inr result, NewPage # calls @ [ClosePage]))"

text \<open>
  A \<^verbatim>\<open>try\<close> block made of calls on the page, with \<open>result\<close> returned at its end: the
  calls made, and \<open>result\<close> or the failure the \<^verbatim>\<open>except\<close> clause returns.
\<close>

definition try_steps :: "page_run \<Rightarrow> action list \<Rightarrow> dict \<Rightarrow> action list \<times> dict" where
  "try_steps pg steps result =
     (case run_steps (step_fail pg) steps of
        (calls, Some msg) \<Rightarrow> (calls, failure (Str msg))
      | (calls, None) \<Rightarrow> (calls, result))"

text \<open>
  \<^verbatim>\<open>if image_path and os.path.exists(image_path)\<close>: \<open>Inl\<close> when the test raises.
\<close>

definition image_given :: "post_env \<Rightarrow> pyval \<Rightarrow> string + bool" where
  "image_given env image_path = (if truthy image_path then path_exists env image_path else Inr False)"

definition linkedin_post_steps :: "string \<Rightarrow> string \<Rightarrow> pyval \<Rightarrow> action list" where
  "linkedin_post_steps email password content =
     [Goto ''https://www.linkedin.com/login'',
      Fill ''input[name=\"session_key\"]'' (Str email),
      Fill ''input[name=\"session_password\"]'' (Str password),
      Click ''button[type=\"submit\"]'',
      Goto ''https://www.linkedin.com/feed/'',
      Click ''button:has-text(\"Start a post\")'',
      LocatorFirst ''[role=\"textbox\"]'',
      Fill ''[role=\"textbox\"]'' content]"

definition post_to_linkedin :: "automation \<Rightarrow> post_env \<Rightarrow> pyval \<Rightarrow> pyval \<Rightarrow> (error + dict) \<times> action list" where
  "post_to_linkedin self env content image_path =
     (case (linkedin_email self, linkedin_password self) of
        (Some email, Some password) \<Rightarrow>
          if email = [] \<or> password = []
          then (Inr (failure (Str ''LinkedIn credentials not set'')), [])
          else
            with_page (linkedin_page env)
              (let steps = linkedin_post_steps email password content;
                   success = [(''success'', BoolV True), (''platform'', Str ''linkedin''),
                              (''timestamp'', Str (now_iso env))]
               in case image_given env image_path of
                    Inl e \<Rightarrow> try_steps (linkedin_page env) steps (failure (Str e))
                  | Inr upload \<Rightarrow>
                      try_steps (linkedin_page env)
                        (steps
                         @ (if upload
                            then [Click ''button[aria-label*=\"image\"]'',
                                  SetInputFiles ''input[type=\"file\"]'' image_path]
                            else [])
                         @ [Click ''button:has-text(\"Post\")''])
                        success)
      | _ \<Rightarrow> (Inr (failure (Str ''LinkedIn credentials not set'')), []))"

definition twitter_post_steps :: "string \<Rightarrow> string \<Rightarrow> pyval \<Rightarrow> action list" where
  "twitter_post_steps email password content =
     [Goto ''https://twitter.com/i/flow/login'',
      Fill ''input[autocomplete=\"username\"]'' (Str email),
      Click ''button:has-text(\"Next\")'',
      Fill ''input[name=\"password\"]'' (Str password),
      Click ''button[data-testid=\"LoginForm_Login_Button\"]'',
      Click ''a[data-testid=\"SideNav_NewTweet_Button\"]'',
      LocatorFirst ''[data-testid=\"tweetTextarea_0\"]'',
      Fill ''[data-testid=\"tweetTextarea_0\"]'' content]"

definition post_to_twitter :: "automation \<Rightarrow> post_env \<Rightarrow> pyval \<Rightarrow> pyval \<Rightarrow> (error + dict) \<times> action list" where
  "post_to_twitter self env content image_path =
     (case (twitter_email self, twitter_password self) of
        (Some email, Some password) \<Rightarrow>
          if email = [] \<or> password = []
          then (Inr (failure (Str ''Twitter credentials not set'')), [])
          else
            with_page (twitter_page env)
              (let steps = twitter_post_steps email password content;
                   success = [(''success'', BoolV True), (''platform'', Str ''twitter''),
                              (''timestamp'', Str (now_iso env))]
               in case image_given env image_path of
                    Inl e \<Rightarrow> try_steps (twitter_page env) steps (failure (Str e))
                  | Inr upload \<Rightarrow>
                      try_steps (twitter_page env)
                        (steps
                         @ (if upload
                            then [SetInputFiles ''input[data-testid=\"fileInput\"]'' image_path]
                            else [])
                         @ [Click ''button[data-testid=\"tweetButtonInline\"]''])
                        success)
      | _ \<Rightarrow> (Inr (failure (Str ''Twitter credentials not set'')), []))"

text \<open>
  \<^verbatim>\<open>if tags: for tag in tags[:5]\<close>: the values the loop runs over; \<open>Inl\<close> when the
  slice raises, for a truthy value that is no sequence. A string is sliced and walked
  character by character.
\<close>

fun tag_items :: "pyval \<Rightarrow> string + pyval list" where
  "tag_items (ListV xs) = Inr (map Str (take 5 xs))"
| "tag_items (Str s) = Inr (map (\<lambda>c. Str [c]) (take 5 s))"
| "tag_items NoneV = Inr []"
| "tag_items (IntV i) = (if i = 0 then Inr [] else Inl (repr_str ''int'' @ '' object is not subscriptable''))"
| "tag_items (BoolV b) = (if b then Inl (repr_str ''bool'' @ '' object is not subscriptable'') else Inr [])"

definition medium_steps :: "pyval \<Rightarrow> pyval \<Rightarrow> action list" where
  "medium_steps title content =
     [Goto ''https://medium.com/new-story'',
      LocatorFirst ''h1[data-default-value=\"Title\"]'',
      Fill ''h1[data-default-value=\"Title\"]'' title,
      LocatorFirst ''[data-default-value=\"Tell your story...\"]'',
      Fill ''[data-default-value=\"Tell your story...\"]'' content,
      Click ''button:has-text(\"Publish\")'']"

definition tag_steps :: "pyval list \<Rightarrow> action list" where
  "tag_steps tags =
     concat (map (\<lambda>tag. [Fill ''input[placeholder=\"Add a tag...\"]'' tag,
                          Press ''input[placeholder=\"Add a tag...\"]'' ''Enter'']) tags)"

definition post_to_medium :: "post_env \<Rightarrow> pyval \<Rightarrow> pyval \<Rightarrow> pyval \<Rightarrow> (error + dict) \<times> action list" where
  "post_to_medium env title content tags =
     with_page (medium_page env)
       (let success = [(''success'', BoolV True), (''platform'', Str ''medium''),
                       (''title'', title), (''timestamp'', Str (now_iso env))]
        in case tag_items tags of
             Inl e \<Rightarrow> try_steps (medium_page env) (medium_steps title content) (failure (Str e))
           | Inr items \<Rightarrow>
               try_steps (medium_page env)
                 (medium_steps title content @ tag_steps items
                  @ [Click ''button:has-text(\"Publish now\")''])
                 success)"

subsection \<open>\<^verbatim>\<open>post_to_all_platforms\<close>\<close>

text \<open>
  The request is a dictionary from platform names to payload dictionaries, the result
  a dictionary from platform names to result dictionaries; both keep insertion order.
  \<^verbatim>\<open>content.get(name)\<close> is truthy for a payload that is present and not empty.
\<close>

type_synonym request = "(string \<times> dict) list"
type_synonym results = "(string \<times> dict) list"

definition requested :: "request \<Rightarrow> string \<Rightarrow> dict option" where
  "requested content name =
     (case map_of content name of
        None \<Rightarrow> None
      | Some payload \<Rightarrow> if payload = [] then None else Some payload)"

text \<open>
  One \<^verbatim>\<open>if\<close> block after the other: an exception that leaves a block ends the method,
  otherwise the next block goes on from the results so far.
\<close>

definition and_then ::
  "(error + results) \<times> action list \<Rightarrow> (results \<Rightarrow> (error + results) \<times> action list)
     \<Rightarrow> (error + results) \<times> action list" where
  "and_then done next_block =
     (case done of
        (Inl e, calls) \<Rightarrow> (Inl e, calls)
      | (Inr res, calls) \<Rightarrow> (case next_block res of (out, calls') \<Rightarrow> (out, calls @ calls')))"

definition facebook_block :: "automation \<Rightarrow> post_env \<Rightarrow> request \<Rightarrow> results \<Rightarrow> (error + results) \<times> action list" where
  "facebook_block self env content res =
     (case requested content ''facebook'' of
        None \<Rightarrow> (Inr res, [])
      | Some payload \<Rightarrow>
          (case post_to_facebook self env (get_default payload ''message'' (Str []))
                  (get_default payload ''image_url'' NoneV) of
             (r, calls) \<Rightarrow> (Inr (AList.update ''facebook'' r res), calls)))"

definition instagram_block :: "automation \<Rightarrow> post_env \<Rightarrow> request \<Rightarrow> results \<Rightarrow> (error + results) \<times> action list" where
  "instagram_block self env content res =
     (case requested content ''instagram'' of
        None \<Rightarrow> (Inr res, [])
      | Some payload \<Rightarrow>
          (case post_to_instagram self env (get_default payload ''image_url'' (Str []))
                  (get_default payload ''caption'' (Str [])) of
             (r, calls) \<Rightarrow> (Inr (AList.update ''instagram'' r res), calls)))"

definition linkedin_block :: "automation \<Rightarrow> post_env \<Rightarrow> request \<Rightarrow> results \<Rightarrow> (error + results) \<times> action list" where
  "linkedin_block self env content res =
     (case requested content ''linkedin'' of
        None \<Rightarrow> (Inr res, [])
      | Some payload \<Rightarrow>
          (case post_to_linkedin self env (get_default payload ''content'' (Str []))
                  (get_default payload ''image_path'' NoneV) of
             (Inl e, calls) \<Rightarrow> (Inl e, calls)
           | (Inr r, calls) \<Rightarrow> (Inr (AList.update ''linkedin'' r res), calls)))"

definition twitter_block :: "automation \<Rightarrow> post_env \<Rightarrow> request \<Rightarrow> results \<Rightarrow> (error + results) \<times> action list" where
  "twitter_block self env content res =
     (case requested content ''twitter'' of
        None \<Rightarrow> (Inr res, [])
      | Some payload \<Rightarrow>
          (case post_to_twitter self env (get_default payload ''content'' (Str []))
                  (get_default payload ''image_path'' NoneV) of
             (Inl e, calls) \<Rightarrow> (Inl e, calls)
           | (Inr r, calls) \<Rightarrow> (Inr (AList.update ''twitter'' r res), calls)))"

definition medium_block :: "post_env \<Rightarrow> request \<Rightarrow> results \<Rightarrow> (error + results) \<times> action list" where
  "medium_block env content res =
     (case requested content ''medium'' of
        None \<Rightarrow> (Inr res, [])
      | Some payload \<Rightarrow>
          (case post_to_medium env (get_default payload ''title'' (Str []))
                  (get_default payload ''content'' (Str []))
                  (get_default payload ''tags'' (ListV [])) of
             (Inl e, calls) \<Rightarrow> (Inl e, calls)
           | (Inr r, calls) \<Rightarrow> (Inr (AList.update ''medium'' r res), calls)))"

definition post_to_all_platforms :: "automation \<Rightarrow> post_env \<Rightarrow> request \<Rightarrow> (error + results) \<times> action list" where
  "post_to_all_platforms self env content =
     and_then (and_then (and_then (and_then
       (facebook_block self env content [])
       (instagram_block self env content))
       (linkedin_block self env content))
       (twitter_block self env content))
       (medium_block env content)"

text \<open>The platforms the method knows, in the order of its blocks.\<close>

definition platforms :: "string list" where
  "platforms = [''facebook'', ''instagram'', ''linkedin'', ''twitter'', ''medium'']"

text \<open>
  An account with every credential, and a world for the examples: the Graph API
  answers and has one page, no Instagram account is linked, the LinkedIn and Medium
  pages work, and the first call on the Twitter page runs into a timeout.
\<close>

definition full_account :: automation where
  "full_account =
     \<lparr>meta_token = Some ''token'',
      linkedin_email = Some ''me@example.org'', linkedin_password = Some ''secret'',
      twitter_email = Some ''me@example.org'', twitter_password = Some ''secret''\<rparr>"

definition no_account :: automation where
  "no_account =
     \<lparr>meta_token = None,
      linkedin_email = None, linkedin_password = Some ''secret'',
      twitter_email = Some ''me@example.org'', twitter_password = Some []\<rparr>"

definition working_page :: page_run where
  "working_page = \<lparr>new_page_ok = True, step_fail = None, close_ok = True\<rparr>"

definition sample_web :: post_env where
  "sample_web =
     \<lparr>fb_accounts = Reply 200 (Inr [[(''id'', Str ''42''), (''access_token'', Str ''page-token'')]]),
      fb_feed = Reply 200 (Inr \<lparr>doc_id = Str ''42_1'', doc_value = Str ''{id: 42_1}''\<rparr>),
      ig_accounts = Reply 200 (Inr [NoAccount]),
      ig_media = Raises ''Connection refused'',
      ig_publish = Raises ''Connection refused'',
      linkedin_page = working_page,
      twitter_page = working_page\<lparr>step_fail := Some (0, ''Timeout 30000ms exceeded'')\<rparr>,
      medium_page = working_page,
      path_exists = (\<lambda>_. Inr False),
      now_iso = ''2025-01-01T12:00:00''\<rparr>"

text \<open>The same world when no browser was started: \<^verbatim>\<open>new_page\<close> raises for LinkedIn.\<close>

definition no_browser :: post_env where
  "no_browser = sample_web\<lparr>linkedin_page := working_page\<lparr>new_page_ok := False\<rparr>\<rparr>"

text \<open>
  The pages of the three methods that drive a browser all open and close without an
  exception.
\<close>

definition pages_open_and_close :: "post_env \<Rightarrow> bool" where
  "pages_open_and_close env =
     (new_page_ok (linkedin_page env) \<and> close_ok (linkedin_page env)
      \<and> new_page_ok (twitter_page env) \<and> close_ok (twitter_page env)
      \<and> new_page_ok (medium_page env) \<and> close_ok (medium_page env))"

text \<open>Whether an action is a navigation of a page.\<close>

fun is_goto :: "action \<Rightarrow> bool" where
  "is_goto (Goto url) = True"
| "is_goto _ = False"

text \<open>A result dictionary says whether the post succeeded.\<close>

definition has_success :: "dict \<Rightarrow> bool" where
  "has_success r = (\<exists>b. dict_get r ''success'' = Some (BoolV b))"

text \<open>
  The call of the adapter of a platform on a payload, with the arguments that
  \<^verbatim>\<open>post_to_all_platforms\<close> takes from the payload; \<open>None\<close> for a name that is not one of
  the five platforms. \<open>attempt\<close> is the call made for a platform of the request, if one
  is made.
\<close>

definition publish :: "automation \<Rightarrow> post_env \<Rightarrow> string \<Rightarrow> dict \<Rightarrow> ((error + dict) \<times> action list) option" where
  "publish self env name payload =
     (if name = ''facebook'' then
        Some (case post_to_facebook self env (get_default payload ''message'' (Str []))
                     (get_default payload ''image_url'' NoneV) of (r, calls) \<Rightarrow> (Inr r, calls))
      else if name = ''instagram'' then
        Some (case post_to_instagram self env (get_default payload ''image_url'' (Str []))
                     (get_default payload ''caption'' (Str [])) of (r, calls) \<Rightarrow> (Inr r, calls))
      else if name = ''linkedin'' then
        Some (post_to_linkedin self env (get_default payload ''content'' (Str []))
                (get_default payload ''image_path'' NoneV))
      else if name = ''twitter'' then
        Some (post_to_twitter self env (get_default payload ''content'' (Str []))
                (get_default payload ''image_path'' NoneV))
      else if name = ''medium'' then
        Some (post_to_medium env (get_default payload ''title'' (Str []))
                (get_default payload ''content'' (Str []))
                (get_default payload ''tags'' (ListV [])))
      else None)"

definition attempt :: "automation \<Rightarrow> post_env \<Rightarrow> request \<Rightarrow> string \<Rightarrow> ((error + dict) \<times> action list) option" where
  "attempt self env content name =
     (case requested content name of None \<Rightarrow> None | Some payload \<Rightarrow> publish self env name payload)"

text \<open>
  The shape that the five \<^verbatim>\<open>if\<close> blocks share, and a run of such blocks; they serve
  the proofs about \<^verbatim>\<open>post_to_all_platforms\<close>.
\<close>

definition block :: "string \<Rightarrow> ((error + dict) \<times> action list) option \<Rightarrow> results \<Rightarrow> (error + results) \<times> action list" where
  "block name call res =
     (case call of
        None \<Rightarrow> (Inr res, [])
      | Some (Inl e, calls) \<Rightarrow> (Inl e, calls)
      | Some (Inr r, calls) \<Rightarrow> (Inr (AList.update name r res), calls))"

fun run_blocks ::
  "(string \<times> ((error + dict) \<times> action list) option) list \<Rightarrow> (error + results) \<times> action list
     \<Rightarrow> (error + results) \<times> action list" where
  "run_blocks [] done = done"
| "run_blocks ((name, call) # bs) done = run_blocks bs (and_then done (block name call))"

definition entry :: "string \<Rightarrow> ((error + dict) \<times> action list) option \<Rightarrow> results" where
  "entry name call = (case call of Some (Inr r, calls) \<Rightarrow> [(name, r)] | _ \<Rightarrow> [])"

definition calls_of :: "((error + dict) \<times> action list) option \<Rightarrow> action list" where
  "calls_of call = (case call of None \<Rightarrow> [] | Some (out, calls) \<Rightarrow> calls)"

definition returns :: "((error + dict) \<times> action list) option \<Rightarrow> bool" where
  "returns call = (case call of Some (Inl e, calls) \<Rightarrow> False | _ \<Rightarrow> True)"

text \<open>No adapter that \<^verbatim>\<open>post_to_all_platforms\<close> calls for the request raises.\<close>

definition no_adapter_raises :: "automation \<Rightarrow> post_env \<Rightarrow> request \<Rightarrow> bool" where
  "no_adapter_raises self env content = list_all (\<lambda>name. returns (attempt self env content name)) platforms"

section \<open>Outreach messages: \<^verbatim>\<open>generate_outreach_message\<close>\<close>

text \<open>
  \<^verbatim>\<open>template_text.format(name=..., ...)\<close> with keyword arguments only. The text is read
  from left to right: \<^verbatim>\<open>{{\<close> and \<^verbatim>\<open>}}\<close> stand for a brace, \<^verbatim>\<open>{field}\<close> is replaced
  by \<^verbatim>\<open>str\<close> of the argument of that name. A field with a conversion, a format spec,
  an attribute or an index (\<^verbatim>\<open>!\<close>, \<^verbatim>\<open>:\<close>, \<^verbatim>\<open>.\<close>, \<^verbatim>\<open>[\<close>) or with a brace inside
  is outside the model; the four templates have none.
\<close>

datatype format_error =
    KeyError string
  | IndexError
  | ValueError string
  | NotModelled string

definition is_digit :: "char \<Rightarrow> bool" where
  "is_digit c = (c \<in> set ''0123456789'')"

text \<open>What replaces the field \<open>field\<close>, given the keyword arguments \<open>kwargs\<close>.\<close>

definition field_value :: "(string \<times> pyval) list \<Rightarrow> string \<Rightarrow> format_error + string" where
  "field_value kwargs field =
     (if list_all is_digit field then Inl IndexError
      else if list_ex (\<lambda>c. c \<in> set ''!:.[]'') field then Inl (NotModelled field)
      else case map_of kwargs field of
             None \<Rightarrow> Inl (KeyError field)
           | Some v \<Rightarrow> Inr (str v))"

definition prepend :: "string \<Rightarrow> format_error + string \<Rightarrow> format_error + string" where
  "prepend s r = (case r of Inl e \<Rightarrow> Inl e | Inr t \<Rightarrow> Inr (s @ t))"

text \<open>
  \<open>format_from kwargs field text\<close> formats the rest \<open>text\<close> of the template; \<open>field\<close> is
  \<open>None\<close> outside a replacement field and holds the characters of the field read so far
  inside one.
\<close>

fun format_from :: "(string \<times> pyval) list \<Rightarrow> string option \<Rightarrow> string \<Rightarrow> format_error + string" where
  "format_from kwargs None [] = Inr []"
| "format_from kwargs (Some field) [] = Inl (ValueError (''expected '' @ repr_str ''}'' @ '' before end of string''))"
| "format_from kwargs None (c # cs) =
     (if c = CHR ''{'' then
        (case cs of
           [] \<Rightarrow> Inl (ValueError (''Single '' @ repr_str ''{'' @ '' encountered in format string''))
         | d # ds \<Rightarrow> if d = CHR ''{'' then prepend ''{'' (format_from kwargs None ds)
                     else format_from kwargs (Some []) cs)
      else if c = CHR ''}'' then
        (case cs of
           [] \<Rightarrow> Inl (ValueError (''Single '' @ repr_str ''}'' @ '' encountered in format string''))
         | d # ds \<Rightarrow> if d = CHR ''}'' then prepend ''}'' (format_from kwargs None ds)
                     else Inl (ValueError (''Single '' @ repr_str ''}'' @ '' encountered in format string'')))
      else prepend [c] (format_from kwargs None cs))"
| "format_from kwargs (Some field) (c # cs) =
     (if c = CHR ''}'' then
        (case field_value kwargs field of
           Inl e \<Rightarrow> Inl e
         | Inr s \<Rightarrow> prepend s (format_from kwargs None cs))
      else if c = CHR ''{'' then Inl (NotModelled (field @ [c]))
      else format_from kwargs (Some (field @ [c])) cs)"

definition format :: "string \<Rightarrow> (string \<times> pyval) list \<Rightarrow> format_error + string" where
  "format text kwargs = format_from kwargs None text"











section \<open>Properties of the filter and of the table\<close>

subsection \<open>Substring matching and the score\<close>


lemma lower_append: "lower (xs @ ys) = lower xs @ lower ys"
  by (simp add: lower_def)








subsection \<open>The filter loop\<close>

text \<open>
  When no dictionary is stored twice, the loop has a closed form: the store changes at
  the matching leads only, and \<open>quality\<close> grows by the matching references in order.
\<close>

lemma filter_loop_distinct:
  "distinct rs \<Longrightarrow>
   filter_loop keywords rs h quality =
     ((\<lambda>r. if r \<in> set rs \<and> matches keywords (h r) then scored keywords (h r) else h r),
      quality @ filter (\<lambda>r. matches keywords (h r)) rs)"
proof (induction rs arbitrary: h quality)
  case Nil
  then show ?case by simp
next
  case (Cons r rs)
  then have d: "distinct rs" and nr: "r \<notin> set rs" by simp_all
  show ?case
  proof (cases "matches keywords (h r)")
    case True
    let ?h = "h(r := scored keywords (h r))"
    have same: "\<And>x. x \<in> set rs \<Longrightarrow> ?h x = h x" using nr by auto
    have f: "filter (\<lambda>x. matches keywords (?h x)) rs = filter (\<lambda>x. matches keywords (h x)) rs"
      using nr by (intro filter_cong) auto
    have "filter_loop keywords (r # rs) h quality = filter_loop keywords rs ?h (quality @ [r])"
      using True by (simp add: matches_def scored_def Let_def)
    also have "\<dots> = ((\<lambda>x. if x \<in> set rs \<and> matches keywords (?h x) then scored keywords (?h x) else ?h x),
                     (quality @ [r]) @ filter (\<lambda>x. matches keywords (?h x)) rs)"
      by (rule Cons.IH [OF d])
    also have "\<dots> = ((\<lambda>x. if x \<in> set (r # rs) \<and> matches keywords (h x) then scored keywords (h x) else h x),
                     quality @ filter (\<lambda>x. matches keywords (h x)) (r # rs))"
    proof -
      have h_eq: "(\<lambda>x. if x \<in> set rs \<and> matches keywords (?h x) then scored keywords (?h x) else ?h x)
                  = (\<lambda>x. if x \<in> set (r # rs) \<and> matches keywords (h x) then scored keywords (h x) else h x)"
        using True nr by (auto simp: fun_eq_iff)
      have q_eq: "(quality @ [r]) @ filter (\<lambda>x. matches keywords (?h x)) rs
                  = quality @ filter (\<lambda>x. matches keywords (h x)) (r # rs)"
        unfolding f using True by simp
      show ?thesis by (simp only: h_eq q_eq)
    qed
    finally show ?thesis .
  next
    case False
    have "filter_loop keywords (r # rs) h quality = filter_loop keywords rs h quality"
      using False by (simp add: matches_def Let_def)
    also have "\<dots> = ((\<lambda>x. if x \<in> set rs \<and> matches keywords (h x) then scored keywords (h x) else h x),
                     quality @ filter (\<lambda>x. matches keywords (h x)) rs)"
      by (rule Cons.IH [OF d])
    also have "\<dots> = ((\<lambda>x. if x \<in> set (r # rs) \<and> matches keywords (h x) then scored keywords (h x) else h x),
                     quality @ filter (\<lambda>x. matches keywords (h x)) (r # rs))"
      using False by (auto simp: fun_eq_iff)
    finally show ?thesis .
  qed
qed

lemma dict_get_scored: "dict_get (scored keywords lead) ''match_score'' = Some (IntV (hit_sum (lead_text lead) keywords))"
  by (simp add: scored_def dict_set_def dict_get_def update_conv')

lemma dict_get_scored_other: "k \<noteq> ''match_score'' \<Longrightarrow> dict_get (scored keywords lead) k = dict_get lead k"
  by (simp add: scored_def dict_set_def dict_get_def update_conv')

lemma sort_score_scored: "sort_score (scored keywords lead) = hit_sum (lead_text lead) keywords"
  by (simp add: sort_score_def get_default_def dict_get_scored)

lemma filter_loop_Cons:
  "filter_loop kws (r # rs) h q =
     (if matches kws (h r) then filter_loop kws rs (h(r := scored kws (h r))) (q @ [r])
      else filter_loop kws rs h q)"
  by (simp add: matches_def scored_def Let_def)

lemma filter_loop_frame:
  "filter_loop kws rs h q = (h', q') \<Longrightarrow>
     (\<forall>r. r \<notin> set q' \<longrightarrow> h' r = h r) \<and> set q \<subseteq> set q' \<and> set q' \<subseteq> set q \<union> set rs"
proof (induction rs arbitrary: h q)
  case Nil
  then show ?case by auto
next
  case (Cons a rs)
  show ?case
  proof (cases "matches kws (h a)")
    case True
    with Cons.prems have "filter_loop kws rs (h(a := scored kws (h a))) (q @ [a]) = (h', q')"
      by (simp add: filter_loop_Cons del: filter_loop.simps)
    from Cons.IH [OF this] show ?thesis by auto
  next
    case False
    with Cons.prems have "filter_loop kws rs h q = (h', q')"
      by (simp add: filter_loop_Cons del: filter_loop.simps)
    from Cons.IH [OF this] show ?thesis by auto
  qed
qed

lemma filter_loop_other_keys:
  "filter_loop kws rs h q = (h', q') \<Longrightarrow> k \<noteq> ''match_score'' \<Longrightarrow>
     dict_get (h' r) k = dict_get (h r) k"
proof (induction rs arbitrary: h q)
  case Nil
  then show ?case by auto
next
  case (Cons a rs)
  show ?case
  proof (cases "matches kws (h a)")
    case True
    with Cons.prems have "filter_loop kws rs (h(a := scored kws (h a))) (q @ [a]) = (h', q')"
      by (simp add: filter_loop_Cons del: filter_loop.simps)
    from Cons.IH [OF this Cons.prems(2)] show ?thesis
      by (simp add: dict_get_scored_other [OF Cons.prems(2)])
  next
    case False
    with Cons.prems have "filter_loop kws rs h q = (h', q')"
      by (simp add: filter_loop_Cons del: filter_loop.simps)
    from Cons.IH [OF this Cons.prems(2)] show ?thesis .
  qed
qed

lemma has_int_score_scored: "has_int_score (scored kws d)"
  by (simp add: has_int_score_def dict_get_scored)

lemma filter_loop_keeps_int_score:
  "filter_loop kws rs h q = (h', q') \<Longrightarrow> has_int_score (h r) \<Longrightarrow> has_int_score (h' r)"
proof (induction rs arbitrary: h q)
  case Nil
  then show ?case by auto
next
  case (Cons a rs)
  show ?case
  proof (cases "matches kws (h a)")
    case True
    with Cons.prems have run: "filter_loop kws rs (h(a := scored kws (h a))) (q @ [a]) = (h', q')"
      by (simp add: filter_loop_Cons del: filter_loop.simps)
    have "has_int_score ((h(a := scored kws (h a))) r)"
      using Cons.prems(2) by (simp add: has_int_score_scored)
    from Cons.IH [OF run this] show ?thesis .
  next
    case False
    with Cons.prems have "filter_loop kws rs h q = (h', q')"
      by (simp add: filter_loop_Cons del: filter_loop.simps)
    from Cons.IH [OF this Cons.prems(2)] show ?thesis .
  qed
qed

lemma filter_loop_scored:
  "filter_loop kws rs h q = (h', q') \<Longrightarrow> r \<in> set q' \<Longrightarrow> r \<in> set q \<or> has_int_score (h' r)"
proof (induction rs arbitrary: h q)
  case Nil
  then show ?case by auto
next
  case (Cons a rs)
  show ?case
  proof (cases "matches kws (h a)")
    case True
    with Cons.prems have run: "filter_loop kws rs (h(a := scored kws (h a))) (q @ [a]) = (h', q')"
      by (simp add: filter_loop_Cons del: filter_loop.simps)
    from Cons.IH [OF run Cons.prems(2)] have "r \<in> set q \<or> r = a \<or> has_int_score (h' r)"
      by auto
    moreover have "has_int_score (h' a)"
      by (rule filter_loop_keeps_int_score [OF run]) (simp add: has_int_score_scored)
    ultimately show ?thesis by auto
  next
    case False
    with Cons.prems have "filter_loop kws rs h q = (h', q')"
      by (simp add: filter_loop_Cons del: filter_loop.simps)
    from Cons.IH [OF this Cons.prems(2)] show ?thesis .
  qed
qed

lemma sort_score_int: "dict_get d ''match_score'' = Some (IntV n) \<Longrightarrow> sort_score d = n"
  by (simp add: sort_score_def get_default_def)

subsection \<open>The table written by \<^verbatim>\<open>save_leads_to_csv\<close>\<close>

lemma collect_fieldnames_union:
  "collect_fieldnames ds A = A \<union> (\<Union>d\<in>set ds. set (dict_keys d))"
  by (induction ds arbitrary: A) auto

lemma finite_collect_fieldnames: "finite A \<Longrightarrow> finite (collect_fieldnames ds A)"
  by (simp add: collect_fieldnames_union)

lemma save_leads_to_csv_Some:
  "leads s \<noteq> [] \<Longrightarrow>
   save_leads_to_csv fn stamp True s =
     Some \<lparr>path = (case fn of None \<Rightarrow> ''leads_'' @ stamp @ ''.csv''
                         | Some f \<Rightarrow> if f = [] then ''leads_'' @ stamp @ ''.csv'' else f),
           header = sorted_list_of_set (\<Union>r\<in>set (leads s). set (dict_keys (objs s r))),
           rows = map (\<lambda>r. csv_row (sorted_list_of_set (\<Union>r\<in>set (leads s). set (dict_keys (objs s r)))) (objs s r)) (leads s)\<rparr>"
  by (simp add: save_leads_to_csv_def Let_def collect_fieldnames_union comp_def)

text \<open>
  Claim C7. For a non-empty batch of leads whose file can be written,
  \<^verbatim>\<open>save_leads_to_csv\<close> writes one row per lead, in the order of the leads, and the
  columns are exactly the keys seen across the batch (the union of the key sets, no more
  and no fewer), each once and in ascending order of the key name.
\<close>

theorem save_leads_to_csv_columns:
  assumes "leads s \<noteq> []"
  shows "\<exists>file. save_leads_to_csv fn stamp True s = Some file
           \<and> rows file = map (\<lambda>r. csv_row (header file) (objs s r)) (leads s)
           \<and> length (rows file) = length (leads s)
           \<and> set (header file) = (\<Union>r\<in>set (leads s). set (dict_keys (objs s r)))
           \<and> sorted (header file) \<and> distinct (header file)"
  by (simp add: save_leads_to_csv_Some [OF assms])

subsection \<open>What filtering changes\<close>

text \<open>
  Claim C10. \<^verbatim>\<open>filter_quality_leads\<close> leaves the stored list \<^verbatim>\<open>self.leads\<close> as it
  is, in membership and order. In the stored dictionaries it changes nothing but the key
  \<^verbatim>\<open>match_score\<close>; a dictionary that is not returned is not touched at all, and every
  returned one is a stored lead that now carries an integer score. When no dictionary
  is stored twice, the store after the call is the old one with the score written into
  exactly the leads that match a keyword. A following \<^verbatim>\<open>save_leads_to_csv\<close> writes one
  row for every stored lead, not only for the returned ones.
\<close>

theorem filter_quality_leads_frame:
  assumes "filter_quality_leads kws s = (res, s')"
  shows "leads s' = leads s
       \<and> (\<forall>r k. k \<noteq> ''match_score'' \<longrightarrow> dict_get (objs s' r) k = dict_get (objs s r) k)
       \<and> (\<forall>r. r \<notin> set res \<longrightarrow> objs s' r = objs s r)
       \<and> (\<forall>r\<in>set res. r \<in> set (leads s) \<and> (\<exists>n. match_score s' r = Some (IntV n)))
       \<and> (wf_scraper s \<longrightarrow>
            (\<forall>r. objs s' r = (if r \<in> set (leads s) \<and> matches kws (objs s r)
                               then dict_set ''match_score'' (IntV (hit_sum (lead_text (objs s r)) kws)) (objs s r)
                               else objs s r)))
       \<and> (leads s \<noteq> [] \<longrightarrow>
            (\<exists>file. save_leads_to_csv fn stamp True s' = Some file
               \<and> rows file = map (\<lambda>r. csv_row (header file) (objs s' r)) (leads s)))"
proof -
  obtain h q where run: "filter_loop kws (leads s) (objs s) [] = (h, q)"
    by (cases "filter_loop kws (leads s) (objs s) []")
  with assms have res: "res = sort_reverse (\<lambda>r. sort_score (h r)) q" and s': "s' = s\<lparr>objs := h\<rparr>"
    by (simp_all add: filter_quality_leads_def)
  have set_res: "set res = set q" by (simp add: res sort_reverse_def)
  have 1: "leads s' = leads s" by (simp add: s')
  have 2: "\<forall>r k. k \<noteq> ''match_score'' \<longrightarrow> dict_get (objs s' r) k = dict_get (objs s r) k"
    using filter_loop_other_keys [OF run] by (simp add: s')
  have 3: "\<forall>r. r \<notin> set res \<longrightarrow> objs s' r = objs s r"
    using filter_loop_frame [OF run] by (simp add: s' set_res)
  have 4: "\<forall>r\<in>set res. r \<in> set (leads s) \<and> (\<exists>n. match_score s' r = Some (IntV n))"
    using filter_loop_frame [OF run] filter_loop_scored [OF run]
    by (auto simp: s' set_res match_score_def has_int_score_def)
  have 5: "wf_scraper s \<longrightarrow>
            (\<forall>r. objs s' r = (if r \<in> set (leads s) \<and> matches kws (objs s r)
                               then dict_set ''match_score'' (IntV (hit_sum (lead_text (objs s r)) kws)) (objs s r)
                               else objs s r))"
  proof
    assume "wf_scraper s"
    then have "distinct (leads s)" by (simp add: wf_scraper_def)
    from filter_loop_distinct [OF this, of kws "objs s" "[]"] run
    show "\<forall>r. objs s' r = (if r \<in> set (leads s) \<and> matches kws (objs s r)
                               then dict_set ''match_score'' (IntV (hit_sum (lead_text (objs s r)) kws)) (objs s r)
                               else objs s r)"
      by (auto simp: s' scored_def)
  qed
  have 6: "leads s \<noteq> [] \<longrightarrow>
            (\<exists>file. save_leads_to_csv fn stamp True s' = Some file
               \<and> rows file = map (\<lambda>r. csv_row (header file) (objs s' r)) (leads s))"
  proof
    assume "leads s \<noteq> []"
    then have "leads s' \<noteq> []" by (simp add: 1)
    from save_leads_to_csv_Some [OF this] show "\<exists>file. save_leads_to_csv fn stamp True s' = Some file
               \<and> rows file = map (\<lambda>r. csv_row (header file) (objs s' r)) (leads s)"
      by (simp add: 1)
  qed
  from 1 2 3 4 5 6 show ?thesis by blast
qed

lemma filter_quality_leads_wf:
  assumes "wf_scraper s"
  shows "filter_quality_leads kws s =
           (sort_reverse (\<lambda>r. sort_score (if r \<in> set (leads s) \<and> matches kws (objs s r) then scored kws (objs s r) else objs s r))
              (filter (\<lambda>r. matches kws (objs s r)) (leads s)),
            s\<lparr>objs := (\<lambda>r. if r \<in> set (leads s) \<and> matches kws (objs s r) then scored kws (objs s r) else objs s r)\<rparr>)"
proof -
  from assms have d: "distinct (leads s)" by (simp add: wf_scraper_def)
  show ?thesis
    by (simp add: filter_quality_leads_def filter_loop_distinct [OF d])
qed


subsection \<open>Order of the result\<close>

lemma sorted_negated_key:
  "sorted (map (\<lambda>x. - key x) xs) \<longleftrightarrow> sorted_wrt (\<lambda>a b. (key b :: int) \<le> key a) xs"
  by (simp add: sorted_wrt_map)

text \<open>
  Claim C6. On a scraper that stores no dictionary twice, the list returned by
  \<^verbatim>\<open>filter_quality_leads\<close> is in descending order of the match score, the sort key of
  a returned lead is the score stored in it, and the sort is stable: for every score,
  the returned leads with that score come in the order in which the stored list has them.
\<close>

theorem filter_quality_leads_sorted_stable:
  assumes "wf_scraper s" and "filter_quality_leads kws s = (res, s')"
  shows "sorted_wrt (\<lambda>a b. sort_score (objs s' b) \<le> sort_score (objs s' a)) res
       \<and> (\<forall>r\<in>set res. match_score s' r = Some (IntV (sort_score (objs s' r))))
       \<and> (\<forall>n. filter (\<lambda>r. sort_score (objs s' r) = n) res
                = filter (\<lambda>r. r \<in> set res \<and> sort_score (objs s' r) = n) (leads s))"
proof -
  let ?key = "\<lambda>r. sort_score (if r \<in> set (leads s) \<and> matches kws (objs s r) then scored kws (objs s r) else objs s r)"
  let ?q = "filter (\<lambda>r. matches kws (objs s r)) (leads s)"
  from assms(2) have res: "res = sort_reverse ?key ?q"
    and s': "s' = s\<lparr>objs := (\<lambda>r. if r \<in> set (leads s) \<and> matches kws (objs s r) then scored kws (objs s r) else objs s r)\<rparr>"
    by (simp_all add: filter_quality_leads_wf [OF assms(1)])
  have set_res: "set res = {r \<in> set (leads s). matches kws (objs s r)}"
    by (auto simp: res sort_reverse_def)
  have key: "\<And>r. r \<in> set (leads s) \<Longrightarrow> sort_score (objs s' r) = ?key r"
    by (simp add: s')
  have "sorted (map (\<lambda>x. - ?key x) res)"
    unfolding res sort_reverse_def by (rule sorted_sort_key)
  then have "sorted_wrt (\<lambda>a b. ?key b \<le> ?key a) res"
    by (simp only: sorted_negated_key)
  then have 1: "sorted_wrt (\<lambda>a b. sort_score (objs s' b) \<le> sort_score (objs s' a)) res"
    by (rule sorted_wrt_mono_rel [rotated]) (simp add: key set_res)
  have 2: "\<forall>r\<in>set res. match_score s' r = Some (IntV (sort_score (objs s' r)))"
    by (simp add: set_res s' match_score_def dict_get_scored sort_score_scored)
  have 3: "\<forall>n. filter (\<lambda>r. sort_score (objs s' r) = n) res
                = filter (\<lambda>r. r \<in> set res \<and> sort_score (objs s' r) = n) (leads s)"
  proof
    fix n
    have "filter (\<lambda>r. sort_score (objs s' r) = n) res = filter (\<lambda>r. - ?key r = - n) res"
      by (rule filter_cong) (auto simp: key set_res)
    also have "\<dots> = filter (\<lambda>r. - ?key r = - n) ?q"
      unfolding res sort_reverse_def by (rule sort_key_stable)
    also have "\<dots> = filter (\<lambda>r. r \<in> set res \<and> sort_score (objs s' r) = n) (leads s)"
      unfolding filter_filter by (rule filter_cong) (auto simp: key set_res)
    finally show "filter (\<lambda>r. sort_score (objs s' r) = n) res
                = filter (\<lambda>r. r \<in> set res \<and> sort_score (objs s' r) = n) (leads s)" .
  qed
  from 1 2 3 show ?thesis by blast
qed

subsection \<open>Examples\<close>


lemma lead_text_two_leads:
  "lead_text [(''name'', Str ''Ann''), (''headline'', Str ''Sales'')] = ''ann sales''"
  "lead_text [(''name'', Str ''Bob AI''), (''handle'', Str ''@bob'')] = ''bob ai @bob''"
  by (simp_all add: lead_text_def dict_values_def lower_def lower_char_def)

lemma keyword_hit_two_leads:
  "\<not> keyword_hit ''ann sales'' ''ai''"
  "keyword_hit ''bob ai @bob'' ''ai''"
  "keyword_hit ''bob ai @bob'' ''BOB''"
  "\<not> keyword_hit ''ann sales'' ''BOB''"
  by (simp_all add: keyword_hit_def lower_def lower_char_def)

lemma filter_two_leads_ai:
  "filter_quality_leads [''ai''] two_leads =
     ([1], two_leads\<lparr>objs := (objs two_leads)(1 := [(''name'', Str ''Bob AI''), (''handle'', Str ''@bob''), (''match_score'', IntV 1)])\<rparr>)"
  by (simp add: filter_quality_leads_def two_leads_def filter_loop_Cons matches_def scored_def
        lead_text_two_leads keyword_hit_two_leads hit_sum_def sort_reverse_def dict_set_def
        del: filter_loop.simps(2))



lemma lead_text_cara: "lead_text [(''name'', Str ''Cara'')] = ''cara''"
  by (simp add: lead_text_def dict_values_def lower_def lower_char_def)

lemma keyword_hit_three_leads:
  "keyword_hit ''ann sales'' ''a''" "\<not> keyword_hit ''ann sales'' ''bob''"
  "keyword_hit ''bob ai @bob'' ''a''" "keyword_hit ''bob ai @bob'' ''bob''"
  "keyword_hit ''cara'' ''a''" "\<not> keyword_hit ''cara'' ''bob''"
  by (simp_all add: keyword_hit_def lower_def lower_char_def)

lemma filter_three_leads:
  "filter_quality_leads [''a'', ''bob''] three_leads =
     ([1, 0, 2],
      three_leads\<lparr>objs := (objs three_leads)
         (0 := [(''name'', Str ''Ann''), (''headline'', Str ''Sales''), (''match_score'', IntV 1)],
          1 := [(''name'', Str ''Bob AI''), (''handle'', Str ''@bob''), (''match_score'', IntV 2)],
          2 := [(''name'', Str ''Cara''), (''match_score'', IntV 1)])\<rparr>)"
  by (simp add: filter_quality_leads_def three_leads_def two_leads_def filter_loop_Cons matches_def scored_def
        lead_text_two_leads lead_text_cara keyword_hit_three_leads hit_sum_def sort_reverse_def dict_set_def
        sort_score_def get_default_def dict_get_def
        del: filter_loop.simps(2))



text \<open>
  The keywords \<^verbatim>\<open>['a', 'bob']\<close> on three leads with the scores 1, 2 and 1: Bob comes
  first, Ann and Cara follow in the order of the stored list.
\<close>

theorem filter_quality_leads_sorted_stable_witness:
  "wf_scraper three_leads
   \<and> leads three_leads = [0, 1, 2]
   \<and> fst (filter_quality_leads [''a'', ''bob''] three_leads) = [1, 0, 2]
   \<and> map (match_score (snd (filter_quality_leads [''a'', ''bob''] three_leads))) [1, 0, 2]
       = [Some (IntV 2), Some (IntV 1), Some (IntV 1)]
   \<and> filter (\<lambda>r. sort_score (objs (snd (filter_quality_leads [''a'', ''bob''] three_leads)) r) = 1) [1, 0, 2]
       = filter (\<lambda>r. r \<in> set [1, 0, 2]
                     \<and> sort_score (objs (snd (filter_quality_leads [''a'', ''bob''] three_leads)) r) = 1)
           (leads three_leads)"
proof -
  let ?s' = "snd (filter_quality_leads [''a'', ''bob''] three_leads)"
  have wf: "wf_scraper three_leads"
    by (simp add: wf_scraper_def three_leads_def)
  have l: "leads three_leads = [0, 1, 2]"
    by (simp add: three_leads_def)
  have run: "filter_quality_leads [''a'', ''bob''] three_leads = ([1, 0, 2], ?s')"
    by (simp add: filter_three_leads)
  have ms: "map (match_score ?s') [1, 0, 2] = [Some (IntV 2), Some (IntV 1), Some (IntV 1)]"
    by (simp add: filter_three_leads match_score_def dict_get_def)
  note T = filter_quality_leads_sorted_stable [OF wf run]
  from T have "\<forall>n. filter (\<lambda>r. sort_score (objs ?s' r) = n) [1, 0, 2]
                = filter (\<lambda>r. r \<in> set [1, 0, 2] \<and> sort_score (objs ?s' r) = n) (leads three_leads)"
    by (rule conjunct2 [THEN conjunct2])
  then have st: "filter (\<lambda>r. sort_score (objs ?s' r) = 1) [1, 0, 2]
                = filter (\<lambda>r. r \<in> set [1, 0, 2] \<and> sort_score (objs ?s' r) = 1) (leads three_leads)"
    by (rule spec)
  have f: "fst (filter_quality_leads [''a'', ''bob''] three_leads) = [1, 0, 2]"
    by (simp add: filter_three_leads)
  from wf l f ms st show ?thesis by (intro conjI)
qed

text \<open>After filtering for \<^verbatim>\<open>'ai'\<close>, both leads are still stored and both are written.\<close>

theorem filter_quality_leads_frame_witness:
  "leads (snd (filter_quality_leads [''ai''] two_leads)) = leads two_leads
   \<and> objs (snd (filter_quality_leads [''ai''] two_leads)) 0 = objs two_leads 0
   \<and> leads two_leads \<noteq> []
   \<and> (\<exists>out. save_leads_to_csv None ''20250101_120000'' True (snd (filter_quality_leads [''ai''] two_leads)) = Some out
        \<and> length (rows out) = 2)"
proof -
  let ?s' = "snd (filter_quality_leads [''ai''] two_leads)"
  have run: "filter_quality_leads [''ai''] two_leads = ([1], ?s')"
    by (simp add: filter_two_leads_ai)
  have ne: "leads two_leads \<noteq> []" by (simp add: two_leads_def)
  note T = filter_quality_leads_frame [OF run, of None "''20250101_120000''"]
  from T have a: "leads ?s' = leads two_leads" by blast
  from T have "\<forall>r. r \<notin> set [1] \<longrightarrow> objs ?s' r = objs two_leads r" by blast
  then have b: "objs ?s' 0 = objs two_leads 0" by simp
  from T ne obtain out where o: "save_leads_to_csv None ''20250101_120000'' True ?s' = Some out"
    "rows out = map (\<lambda>r. csv_row (header out) (objs ?s' r)) (leads two_leads)"
    by blast
  have "length (rows out) = 2" by (simp add: o(2)) (simp add: two_leads_def)
  with a b ne o(1) show ?thesis by blast
qed

text \<open>The table of the two leads has the three keys as columns, in order.\<close>

theorem save_leads_to_csv_columns_witness:
  "leads two_leads \<noteq> []
   \<and> (\<exists>file. save_leads_to_csv None ''20250101_120000'' True two_leads = Some file
        \<and> header file = [''handle'', ''headline'', ''name'']
        \<and> rows file = [['''', ''Sales'', ''Ann''], [''@bob'', '''', ''Bob AI'']])"
proof -
  have ne: "leads two_leads \<noteq> []" by (simp add: two_leads_def)
  have keys: "(\<Union>r\<in>set (leads two_leads). set (dict_keys (objs two_leads r))) = set [''handle'', ''headline'', ''name'']"
    by (auto simp: two_leads_def dict_keys_def)
  have srt: "sorted [''handle'', ''headline'', ''name''] \<and> distinct [''handle'', ''headline'', ''name'']"
    by simp
  from save_leads_to_csv_columns [OF ne, of None "''20250101_120000''"]
  obtain out where f: "save_leads_to_csv None ''20250101_120000'' True two_leads = Some out"
    "rows out = map (\<lambda>r. csv_row (header out) (objs two_leads r)) (leads two_leads)"
    "set (header out) = (\<Union>r\<in>set (leads two_leads). set (dict_keys (objs two_leads r)))"
    "sorted (header out)" "distinct (header out)"
    by blast
  from f(3,4,5) keys srt have h: "header out = [''handle'', ''headline'', ''name'']"
    by (metis sorted_distinct_set_unique)
  have "rows out = [['''', ''Sales'', ''Ann''], [''@bob'', '''', ''Bob AI'']]"
    by (simp add: f(2) h two_leads_def csv_row_def dict_get_def)
  with ne f(1) h show ?thesis by simp
qed

section \<open>Properties of the extraction\<close>

subsection \<open>The loop and the store\<close>

lemma extract_loop_eq:
  "extract_loop lead_of i cs found =
     found @ List.map_filter (\<lambda>(j, c). lead_of j c) (zip [i ..< i + length cs] cs)"
proof (induction cs arbitrary: i found)
  case Nil
  then show ?case by (simp add: List.map_filter_simps)
next
  case (Cons c cs)
  have z: "zip [i ..< i + length (c # cs)] (c # cs) = (i, c) # zip [Suc i ..< Suc i + length cs] cs"
    by (simp add: upt_conv_Cons del: upt_Suc)
  show ?case
    by (cases "lead_of i c") (simp_all only: extract_loop.simps option.case Cons.IH z List.map_filter_simps prod.case append_assoc append_Cons append_Nil)
qed

lemma length_map_filter_le: "length (List.map_filter f xs) \<le> length xs"
  by (induction xs) (auto simp: List.map_filter_simps split: option.splits)

lemma set_map_filter: "set (List.map_filter f xs) = {y. \<exists>x\<in>set xs. f x = Some y}"
  by (induction xs) (auto simp: List.map_filter_simps split: option.splits)

lemma length_extract_loop:
  "length (extract_loop lead_of i cs []) \<le> length cs"
  using length_map_filter_le [of "\<lambda>(j, c). lead_of j c" "zip [i ..< i + length cs] cs"]
  by (simp add: extract_loop_eq)

lemma set_extract_loop:
  "d \<in> set (extract_loop lead_of i cs []) \<Longrightarrow> \<exists>j c. c \<in> set cs \<and> lead_of j c = Some d"
  by (auto simp: extract_loop_eq set_map_filter dest: set_zip_rightD)

lemma length_slice_to: "length (slice_to n xs) \<le> length xs"
  by (simp add: slice_to_def)

lemma length_slice_to_cap: "0 \<le> n \<Longrightarrow> int (length (slice_to n xs)) \<le> n"
  by (simp add: slice_to_def)

lemma store_leads_refs:
  "store_leads ds s = (refs, s') \<Longrightarrow> length refs = length ds \<and> map (objs s') refs = ds"
  by (auto simp: store_leads_def Let_def intro!: nth_equalityI)

lemma store_leads_Nil: "store_leads [] s = ([], s)"
proof -
  have "(\<lambda>r. if next_ref s \<le> r \<and> r < next_ref s then [] ! (r - next_ref s) else objs s r) = objs s"
    by (rule ext) auto
  then show ?thesis by (simp add: store_leads_def)
qed

lemma finish_scrape_Inr:
  "finish_scrape env calls found s = (Inr refs, s', tr) \<Longrightarrow>
     map (objs s') refs = (case found of None \<Rightarrow> [] | Some ds \<Rightarrow> ds)"
  by (auto simp: finish_scrape_def split: if_splits option.splits prod.splits dest: store_leads_refs)

lemma finish_scrape_raises:
  "(\<exists>e. fst (finish_scrape env calls found s) = Inl e) \<longleftrightarrow> \<not> close_ok env"
  by (auto simp: finish_scrape_def split: if_splits option.splits prod.splits)

subsection \<open>What a mapped container gives\<close>

lemma linkedin_lead_Some:
  "linkedin_lead now p = Some d \<Longrightarrow>
     dict_get d ''platform'' = Some (Str ''linkedin'') \<and> (\<exists>n. dict_get d ''name'' = Some (Str n))"
  by (auto simp: linkedin_lead_def dict_get_def split: option.splits)

lemma twitter_lead_Some:
  "twitter_lead hashtag now t = Some d \<Longrightarrow>
     dict_get d ''platform'' = Some (Str ''twitter'') \<and> (\<exists>n. dict_get d ''name'' = Some (Str n))"
  by (auto simp: twitter_lead_def dict_get_def split: option.splits)

lemma linkedin_lead_ok: "linkedin_lead now p \<noteq> None \<longleftrightarrow> profile_ok p"
  by (auto simp: linkedin_lead_def profile_ok_def split: option.splits)

lemma length_split_on: "length (split_on c s) = Suc (length (filter (\<lambda>x. x = c) s))"
  by (induction s) (auto split: list.splits)

lemma index_split_on:
  "c \<in> set s \<Longrightarrow> index (split_on c s) 0 \<noteq> None \<and> index (split_on c s) 1 \<noteq> None"
proof -
  assume "c \<in> set s"
  then have "filter (\<lambda>x. x = c) s \<noteq> []"
    by (auto simp: filter_empty_conv)
  then have "0 < length (filter (\<lambda>x. x = c) s)" by simp
  then show ?thesis by (simp add: index_def length_split_on)
qed

lemma twitter_lead_ok: "twitter_lead hashtag now t \<noteq> None \<longleftrightarrow> tweet_ok t"
proof (cases "user_name t")
  case None
  then show ?thesis by (simp add: twitter_lead_def tweet_ok_def)
next
  case u: (Some username)
  show ?thesis
  proof (cases "tweet_text t")
    case None
    with u show ?thesis by (simp add: twitter_lead_def tweet_ok_def)
  next
    case x: (Some body)
    show ?thesis
    proof (cases "CHR ''\<newline>'' \<in> set username")
      case True
      from index_split_on [OF True] obtain a b
        where "index (split_on CHR ''\<newline>'' username) 0 = Some a"
          and "index (split_on CHR ''\<newline>'' username) 1 = Some b"
        by auto
      with u x True show ?thesis by (simp add: twitter_lead_def tweet_ok_def)
    next
      case False
      with u x show ?thesis by (simp add: twitter_lead_def tweet_ok_def)
    qed
  qed
qed

lemma scrape_linkedin_leads_Inr:
  assumes "scrape_linkedin_leads env q m s = (Inr refs, s', tr)"
  shows "map (objs s') refs = []
       \<or> map (objs s') refs = extract_loop (\<lambda>i. linkedin_lead (clock env i)) 0 (slice_to m (containers env)) []"
  using assms
  by (auto simp: scrape_linkedin_leads_def split: if_splits option.splits prod.splits dest!: finish_scrape_Inr)

lemma scrape_twitter_leads_Inr:
  assumes "scrape_twitter_leads env h m s = (Inr refs, s', tr)"
  shows "map (objs s') refs = []
       \<or> map (objs s') refs = extract_loop (\<lambda>i. twitter_lead h (clock env i)) 0 (slice_to m (containers env)) []"
  using assms
  by (auto simp: scrape_twitter_leads_def split: if_splits option.splits prod.splits dest!: finish_scrape_Inr)

lemma capped_and_mapped:
  assumes ds: "map (objs s') refs = [] \<or> map (objs s') refs = extract_loop lead_of 0 (slice_to m cs) []"
  shows "(0 \<le> m \<longrightarrow> int (length refs) \<le> m) \<and> length refs \<le> length cs
       \<and> (\<forall>r\<in>set refs. \<exists>i c. lead_of i c = Some (objs s' r))"
proof -
  from ds show ?thesis
  proof
    assume "map (objs s') refs = []"
    then show ?thesis by simp
  next
    assume e: "map (objs s') refs = extract_loop lead_of 0 (slice_to m cs) []"
    then have "length refs = length (extract_loop lead_of 0 (slice_to m cs) [])"
      by (metis length_map)
    with length_extract_loop [of lead_of 0 "slice_to m cs"]
    have len: "length refs \<le> length (slice_to m cs)" by simp
    have 1: "0 \<le> m \<longrightarrow> int (length refs) \<le> m"
      using len length_slice_to_cap [of m cs] by auto
    have 2: "length refs \<le> length cs"
      using len length_slice_to [of m cs] by simp
    have 3: "\<forall>r\<in>set refs. \<exists>i c. lead_of i c = Some (objs s' r)"
    proof
      fix r assume "r \<in> set refs"
      then have "objs s' r \<in> set (map (objs s') refs)" by simp
      then have "objs s' r \<in> set (extract_loop lead_of 0 (slice_to m cs) [])" by (simp only: e)
      from set_extract_loop [OF this] show "\<exists>i c. lead_of i c = Some (objs s' r)" by blast
    qed
    from 1 2 3 show ?thesis by blast
  qed
qed

text \<open>
  Claim C1, as the code has it. A run of \<^verbatim>\<open>scrape_linkedin_leads\<close> or of
  \<^verbatim>\<open>scrape_twitter_leads\<close> that returns, returns at most \<^verbatim>\<open>max_results\<close> leads when
  \<^verbatim>\<open>max_results\<close> is not negative, and never more leads than the page has containers.
  Every returned lead carries the platform of the method (\<^verbatim>\<open>linkedin\<close>, \<^verbatim>\<open>twitter\<close>)
  and a string under \<^verbatim>\<open>name\<close>; that string may be empty.
\<close>

theorem scrape_leads_capped_and_tagged:
  "(scrape_linkedin_leads env q m s = (Inr refs, s', tr) \<longrightarrow>
      (0 \<le> m \<longrightarrow> int (length refs) \<le> m) \<and> length refs \<le> length (containers env)
      \<and> (\<forall>r\<in>set refs. dict_get (objs s' r) ''platform'' = Some (Str ''linkedin'')
                        \<and> (\<exists>n. dict_get (objs s' r) ''name'' = Some (Str n))))
   \<and> (scrape_twitter_leads env' h m' s = (Inr refs', s'', tr') \<longrightarrow>
      (0 \<le> m' \<longrightarrow> int (length refs') \<le> m') \<and> length refs' \<le> length (containers env')
      \<and> (\<forall>r\<in>set refs'. dict_get (objs s'' r) ''platform'' = Some (Str ''twitter'')
                         \<and> (\<exists>n. dict_get (objs s'' r) ''name'' = Some (Str n))))"
proof (intro conjI impI)
  assume a: "scrape_linkedin_leads env q m s = (Inr refs, s', tr)"
  note T = capped_and_mapped [OF scrape_linkedin_leads_Inr [OF a]]
  from T show "0 \<le> m \<Longrightarrow> int (length refs) \<le> m" by blast
  from T show "length refs \<le> length (containers env)" by blast
  from T linkedin_lead_Some
  show "\<forall>r\<in>set refs. dict_get (objs s' r) ''platform'' = Some (Str ''linkedin'')
                        \<and> (\<exists>n. dict_get (objs s' r) ''name'' = Some (Str n))" by blast
next
  assume a: "scrape_twitter_leads env' h m' s = (Inr refs', s'', tr')"
  note T = capped_and_mapped [OF scrape_twitter_leads_Inr [OF a]]
  from T show "0 \<le> m' \<Longrightarrow> int (length refs') \<le> m'" by blast
  from T show "length refs' \<le> length (containers env')" by blast
  from T twitter_lead_Some
  show "\<forall>r\<in>set refs'. dict_get (objs s'' r) ''platform'' = Some (Str ''twitter'')
                        \<and> (\<exists>n. dict_get (objs s'' r) ''name'' = Some (Str n))" by blast
qed

subsection \<open>Malformed containers\<close>

lemma length_map_filter:
  "length (List.map_filter f xs) = length (filter (\<lambda>x. f x \<noteq> None) xs)"
  by (induction xs) (auto simp: List.map_filter_simps split: option.splits)

lemma length_filter_numbered:
  "length (filter (\<lambda>(i, c). P c) (numbered cs)) = length (filter P cs)"
proof -
  have "filter (\<lambda>(i, c). P c) (numbered cs) = filter (P \<circ> snd) (numbered cs)"
    by (rule filter_cong) auto
  then have "length (filter (\<lambda>(i, c). P c) (numbered cs)) = length (map snd (filter (P \<circ> snd) (numbered cs)))"
    by simp
  also have "\<dots> = length (filter P (map snd (numbered cs)))"
    by (simp only: filter_map)
  also have "map snd (numbered cs) = cs"
    by (simp add: numbered_def)
  finally show ?thesis .
qed

lemma extract_loop_numbered:
  "extract_loop lead_of 0 cs [] = List.map_filter (\<lambda>(i, c). lead_of i c) (numbered cs)"
  by (simp add: extract_loop_eq numbered_def)

lemma length_extract_loop_ok:
  assumes "\<And>i c. lead_of i c \<noteq> None \<longleftrightarrow> ok c"
  shows "length (extract_loop lead_of 0 cs []) = length (filter ok cs)"
proof -
  have ok1: "\<And>i c y. lead_of i c = Some y \<Longrightarrow> ok c"
    using assms by (metis option.distinct(1))
  have ok2: "\<And>i c. ok c \<Longrightarrow> \<exists>y. lead_of i c = Some y"
    using assms by (metis option.exhaust)
  have "filter (\<lambda>x. (case x of (i, c) \<Rightarrow> lead_of i c) \<noteq> None) (numbered cs) = filter (\<lambda>(i, c). ok c) (numbered cs)"
    by (rule filter_cong) (auto dest: ok1 ok2)
  then show ?thesis
    by (simp only: extract_loop_numbered length_map_filter length_filter_numbered)
qed

lemma one_malformed:
  "length (filter (\<lambda>c. \<not> ok c) cs) = 1 \<Longrightarrow> length (filter ok cs) = length cs - 1"
  using sum_length_filter_compl [of ok cs] by simp

lemma not_set_Some: "\<not> not_set v \<Longrightarrow> \<exists>x. v = Some x \<and> x \<noteq> []"
  by (cases v) (simp_all add: not_set_def)

lemma run_steps_None: "run_steps None steps = (steps, None)"
  by (simp add: run_steps_def)

lemma finish_scrape_ok:
  "close_ok env \<Longrightarrow>
   finish_scrape env calls (Some ds) s =
     (Inr (fst (store_leads ds s)), snd (store_leads ds s), NewPage # calls @ [ClosePage])"
  by (simp add: finish_scrape_def split: prod.splits)

lemma scrape_linkedin_leads_ok:
  assumes "new_page_ok env" "close_ok env" "step_fail env = None"
    and "\<not> not_set (getenv env ''LINKEDIN_EMAIL'')" "\<not> not_set (getenv env ''LINKEDIN_PASSWORD'')"
  shows "\<exists>refs s' tr. scrape_linkedin_leads env q m s = (Inr refs, s', tr)
           \<and> map (objs s') refs = extract_loop (\<lambda>i. linkedin_lead (clock env i)) 0 (slice_to m (containers env)) []"
proof -
  from not_set_Some [OF assms(4)] obtain e where e: "getenv env ''LINKEDIN_EMAIL'' = Some e" "e \<noteq> []" by blast
  from not_set_Some [OF assms(5)] obtain p where p: "getenv env ''LINKEDIN_PASSWORD'' = Some p" "p \<noteq> []" by blast
  let ?ds = "extract_loop (\<lambda>i. linkedin_lead (clock env i)) 0 (slice_to m (containers env)) []"
  have "scrape_linkedin_leads env q m s =
          (Inr (fst (store_leads ?ds s)), snd (store_leads ?ds s), NewPage # linkedin_steps e p q @ [ClosePage])"
    using assms(1,2,3) e p by (simp add: scrape_linkedin_leads_def run_steps_None finish_scrape_ok)
  moreover have "map (objs (snd (store_leads ?ds s))) (fst (store_leads ?ds s)) = ?ds"
    using store_leads_refs [of ?ds s] by (cases "store_leads ?ds s") simp
  ultimately show ?thesis by blast
qed

lemma scrape_twitter_leads_ok:
  assumes "new_page_ok env" "close_ok env" "step_fail env = None"
  shows "\<exists>refs s' tr. scrape_twitter_leads env h m s = (Inr refs, s', tr)
           \<and> map (objs s') refs = extract_loop (\<lambda>i. twitter_lead h (clock env i)) 0 (slice_to m (containers env)) []"
proof -
  let ?ds = "extract_loop (\<lambda>i. twitter_lead h (clock env i)) 0 (slice_to m (containers env)) []"
  have "scrape_twitter_leads env h m s =
          (Inr (fst (store_leads ?ds s)), snd (store_leads ?ds s), NewPage # twitter_steps h @ [ClosePage])"
    using assms by (simp add: scrape_twitter_leads_def run_steps_None finish_scrape_ok)
  moreover have "map (objs (snd (store_leads ?ds s))) (fst (store_leads ?ds s)) = ?ds"
    using store_leads_refs [of ?ds s] by (cases "store_leads ?ds s") simp
  ultimately show ?thesis by blast
qed

lemma skips_malformed:
  assumes run: "\<exists>refs s' tr. run = (Inr refs, s', tr) \<and> map (objs s') refs = extract_loop lead_of 0 cs []"
    and ok: "\<And>i c. lead_of i c \<noteq> None \<longleftrightarrow> ok c"
  shows "\<exists>refs s' tr. run = (Inr refs, s', tr)
           \<and> map (objs s') refs = List.map_filter (\<lambda>(i, c). lead_of i c) (numbered cs)
           \<and> length refs = length (filter ok cs)
           \<and> (length (filter (\<lambda>c. \<not> ok c) cs) = 1 \<longrightarrow> length refs = length cs - 1)"
proof -
  from run obtain refs s' tr where r: "run = (Inr refs, s', tr)"
    and m: "map (objs s') refs = extract_loop lead_of 0 cs []" by blast
  from m have "length refs = length (extract_loop lead_of 0 cs [])" by (metis length_map)
  then have len: "length refs = length (filter ok cs)"
    by (simp only: length_extract_loop_ok [of lead_of ok, OF ok])
  from m have m': "map (objs s') refs = List.map_filter (\<lambda>(i, c). lead_of i c) (numbered cs)"
    by (simp only: extract_loop_numbered)
  from len one_malformed [of ok cs]
  have "length (filter (\<lambda>c. \<not> ok c) cs) = 1 \<longrightarrow> length refs = length cs - 1" by simp
  with r m' len show ?thesis by blast
qed

text \<open>
  Claim C2. In a run in which the page opens and closes, no call on the page raises and
  (for LinkedIn) the credentials are set, the loop goes over the candidate containers
  \<^verbatim>\<open>profiles[:max_results]\<close>, and the method returns the leads of exactly the candidates
  whose field extractor does not raise, in the order of the page: a malformed container
  is left out and the loop goes on. With exactly one malformed container among \<open>n\<close>
  candidates the result has \<open>n - 1\<close> leads.
\<close>

theorem extraction_skips_malformed_containers:
  "(new_page_ok env \<and> close_ok env \<and> step_fail env = None
      \<and> \<not> not_set (getenv env ''LINKEDIN_EMAIL'') \<and> \<not> not_set (getenv env ''LINKEDIN_PASSWORD'') \<longrightarrow>
      (\<exists>refs s' tr. scrape_linkedin_leads env q m s = (Inr refs, s', tr)
         \<and> map (objs s') refs
             = List.map_filter (\<lambda>(i, p). linkedin_lead (clock env i) p) (numbered (slice_to m (containers env)))
         \<and> length refs = length (filter profile_ok (slice_to m (containers env)))
         \<and> (length (filter (\<lambda>p. \<not> profile_ok p) (slice_to m (containers env))) = 1
              \<longrightarrow> length refs = length (slice_to m (containers env)) - 1)))
   \<and> (new_page_ok env' \<and> close_ok env' \<and> step_fail env' = None \<longrightarrow>
      (\<exists>refs s' tr. scrape_twitter_leads env' h m' s = (Inr refs, s', tr)
         \<and> map (objs s') refs
             = List.map_filter (\<lambda>(i, t). twitter_lead h (clock env' i) t) (numbered (slice_to m' (containers env')))
         \<and> length refs = length (filter tweet_ok (slice_to m' (containers env')))
         \<and> (length (filter (\<lambda>t. \<not> tweet_ok t) (slice_to m' (containers env'))) = 1
              \<longrightarrow> length refs = length (slice_to m' (containers env')) - 1)))"
proof (intro conjI impI)
  assume a: "new_page_ok env \<and> close_ok env \<and> step_fail env = None
      \<and> \<not> not_set (getenv env ''LINKEDIN_EMAIL'') \<and> \<not> not_set (getenv env ''LINKEDIN_PASSWORD'')"
  then have run: "\<exists>refs s' tr. scrape_linkedin_leads env q m s = (Inr refs, s', tr)
           \<and> map (objs s') refs = extract_loop (\<lambda>i. linkedin_lead (clock env i)) 0 (slice_to m (containers env)) []"
    by (intro scrape_linkedin_leads_ok) simp_all
  have ok: "\<And>i c. linkedin_lead (clock env i) c \<noteq> None \<longleftrightarrow> profile_ok c"
    by (rule linkedin_lead_ok)
  from skips_malformed [OF run ok]
  show "\<exists>refs s' tr. scrape_linkedin_leads env q m s = (Inr refs, s', tr)
         \<and> map (objs s') refs
             = List.map_filter (\<lambda>(i, p). linkedin_lead (clock env i) p) (numbered (slice_to m (containers env)))
         \<and> length refs = length (filter profile_ok (slice_to m (containers env)))
         \<and> (length (filter (\<lambda>p. \<not> profile_ok p) (slice_to m (containers env))) = 1
              \<longrightarrow> length refs = length (slice_to m (containers env)) - 1)" .
next
  assume a: "new_page_ok env' \<and> close_ok env' \<and> step_fail env' = None"
  then have run: "\<exists>refs s' tr. scrape_twitter_leads env' h m' s = (Inr refs, s', tr)
           \<and> map (objs s') refs = extract_loop (\<lambda>i. twitter_lead h (clock env' i)) 0 (slice_to m' (containers env')) []"
    by (intro scrape_twitter_leads_ok) simp_all
  have ok: "\<And>i c. twitter_lead h (clock env' i) c \<noteq> None \<longleftrightarrow> tweet_ok c"
    by (rule twitter_lead_ok)
  from skips_malformed [OF run ok]
  show "\<exists>refs s' tr. scrape_twitter_leads env' h m' s = (Inr refs, s', tr)
         \<and> map (objs s') refs
             = List.map_filter (\<lambda>(i, t). twitter_lead h (clock env' i) t) (numbered (slice_to m' (containers env')))
         \<and> length refs = length (filter tweet_ok (slice_to m' (containers env')))
         \<and> (length (filter (\<lambda>t. \<not> tweet_ok t) (slice_to m' (containers env'))) = 1
              \<longrightarrow> length refs = length (slice_to m' (containers env')) - 1)" .
qed

subsection \<open>Exceptions\<close>

lemma finish_scrape_raises_iff:
  "(\<exists>e. fst (finish_scrape env calls found s) = Inl e) \<longleftrightarrow> \<not> close_ok env"
  by (auto simp: finish_scrape_def split: if_splits option.splits prod.splits)

lemma scrape_linkedin_leads_finish:
  "new_page_ok env \<Longrightarrow> \<exists>calls found. scrape_linkedin_leads env q m s = finish_scrape env calls found s"
  unfolding scrape_linkedin_leads_def
  by (simp split: option.split prod.split) blast

lemma scrape_twitter_leads_finish:
  "new_page_ok env \<Longrightarrow> \<exists>calls found. scrape_twitter_leads env h m s = finish_scrape env calls found s"
  unfolding scrape_twitter_leads_def
  by (simp split: option.split prod.split) blast

lemma scrape_linkedin_leads_raises:
  "(\<exists>e. fst (scrape_linkedin_leads env q m s) = Inl e) \<longleftrightarrow> \<not> new_page_ok env \<or> \<not> close_ok env"
proof (cases "new_page_ok env")
  case False
  then show ?thesis by (simp add: scrape_linkedin_leads_def)
next
  case True
  from scrape_linkedin_leads_finish [OF True, of q m s]
  obtain calls found where "scrape_linkedin_leads env q m s = finish_scrape env calls found s"
    by blast
  with True show ?thesis by (simp add: finish_scrape_raises_iff)
qed

lemma scrape_twitter_leads_raises:
  "(\<exists>e. fst (scrape_twitter_leads env h m s) = Inl e) \<longleftrightarrow> \<not> new_page_ok env \<or> \<not> close_ok env"
proof (cases "new_page_ok env")
  case False
  then show ?thesis by (simp add: scrape_twitter_leads_def)
next
  case True
  from scrape_twitter_leads_finish [OF True, of h m s]
  obtain calls found where "scrape_twitter_leads env h m s = finish_scrape env calls found s"
    by blast
  with True show ?thesis by (simp add: finish_scrape_raises_iff)
qed

lemma run_steps_fail:
  "i < length steps \<Longrightarrow> run_steps (Some (i, msg)) steps = (take (Suc i) steps, Some msg)"
  by (simp add: run_steps_def)

lemma finish_scrape_Nil:
  "close_ok env \<Longrightarrow> finish_scrape env calls (Some []) s = (Inr [], s, NewPage # calls @ [ClosePage])"
  by (simp add: finish_scrape_def store_leads_Nil)

lemma finish_scrape_None:
  "close_ok env \<Longrightarrow> finish_scrape env calls None s = (Inr [], s, NewPage # calls @ [ClosePage])"
  by (simp add: finish_scrape_def)

lemma length_linkedin_steps: "length (linkedin_steps e p q) = 9"
  by (simp add: linkedin_steps_def)

lemma length_twitter_steps: "length (twitter_steps h) = 7"
  by (simp add: twitter_steps_def)

lemma scrape_linkedin_leads_navigation_fails:
  assumes "new_page_ok env" "close_ok env" "step_fail env = Some (i, msg)" "i < 9"
    and "\<not> not_set (getenv env ''LINKEDIN_EMAIL'')" "\<not> not_set (getenv env ''LINKEDIN_PASSWORD'')"
  shows "fst (scrape_linkedin_leads env q m s) = Inr [] \<and> fst (snd (scrape_linkedin_leads env q m s)) = s"
proof -
  from not_set_Some [OF assms(5)] obtain e where e: "getenv env ''LINKEDIN_EMAIL'' = Some e" "e \<noteq> []" by blast
  from not_set_Some [OF assms(6)] obtain p where p: "getenv env ''LINKEDIN_PASSWORD'' = Some p" "p \<noteq> []" by blast
  have "run_steps (step_fail env) (linkedin_steps e p q) = (take (Suc i) (linkedin_steps e p q), Some msg)"
    using assms(3,4) by (simp add: run_steps_fail length_linkedin_steps)
  then show ?thesis
    using assms(1,2) e p by (simp add: scrape_linkedin_leads_def finish_scrape_Nil)
qed

lemma scrape_twitter_leads_navigation_fails:
  assumes "new_page_ok env" "close_ok env" "step_fail env = Some (i, msg)" "i < 7"
  shows "fst (scrape_twitter_leads env h m s) = Inr [] \<and> fst (snd (scrape_twitter_leads env h m s)) = s"
proof -
  have "run_steps (step_fail env) (twitter_steps h) = (take (Suc i) (twitter_steps h), Some msg)"
    using assms(3,4) by (simp add: run_steps_fail length_twitter_steps)
  then show ?thesis
    using assms(1,2) by (simp add: scrape_twitter_leads_def finish_scrape_Nil)
qed

text \<open>
  Claim C3, as the code has it. An extraction run raises exactly when opening the page
  (before the \<^verbatim>\<open>try\<close>) or closing it (in the \<^verbatim>\<open>finally\<close> clause) raises. When a call
  of the navigation raises (a \<^verbatim>\<open>goto\<close>, a \<^verbatim>\<open>fill\<close>, a \<^verbatim>\<open>click\<close>, a scroll or the query
  for the containers), the \<^verbatim>\<open>except\<close> clause takes it: the method returns the empty
  list and leaves the scraper as it was.
\<close>

theorem scrape_raises_only_for_page:
  "((\<exists>e. fst (scrape_linkedin_leads env q m s) = Inl e) \<longleftrightarrow> \<not> new_page_ok env \<or> \<not> close_ok env)
   \<and> (new_page_ok env \<and> close_ok env \<and> step_fail env = Some (i, msg) \<and> i < 9
        \<and> \<not> not_set (getenv env ''LINKEDIN_EMAIL'') \<and> \<not> not_set (getenv env ''LINKEDIN_PASSWORD'') \<longrightarrow>
        fst (scrape_linkedin_leads env q m s) = Inr []
        \<and> fst (snd (scrape_linkedin_leads env q m s)) = s)
   \<and> ((\<exists>e. fst (scrape_twitter_leads env' h m' s) = Inl e) \<longleftrightarrow> \<not> new_page_ok env' \<or> \<not> close_ok env')
   \<and> (new_page_ok env' \<and> close_ok env' \<and> step_fail env' = Some (j, msg') \<and> j < 7 \<longrightarrow>
        fst (scrape_twitter_leads env' h m' s) = Inr []
        \<and> fst (snd (scrape_twitter_leads env' h m' s)) = s)"
  using scrape_linkedin_leads_raises [of env q m s] scrape_twitter_leads_raises [of env' h m' s]
    scrape_linkedin_leads_navigation_fails [of env i msg q m s]
    scrape_twitter_leads_navigation_fails [of env' j msg' h m' s]
  by blast


subsection \<open>The invariant of the scraper\<close>

text \<open>
  A new scraper stores no dictionary twice, and the scraping and filtering methods
  keep it so.
\<close>

lemma wf_init_scraper: "wf_scraper init_scraper"
  by (simp add: wf_scraper_def init_scraper_def)

lemma wf_store_leads: "wf_scraper s \<Longrightarrow> wf_scraper (snd (store_leads ds s))"
  by (auto simp: wf_scraper_def store_leads_def Let_def list_all_iff)

lemma wf_finish_scrape: "wf_scraper s \<Longrightarrow> wf_scraper (fst (snd (finish_scrape env calls found s)))"
proof (cases found)
  case None
  then show "wf_scraper s \<Longrightarrow> ?thesis" by (simp add: finish_scrape_def)
next
  case (Some ds)
  assume "wf_scraper s"
  from wf_store_leads [OF this, of ds] Some \<open>wf_scraper s\<close> show ?thesis
    by (cases "store_leads ds s") (simp add: finish_scrape_def)
qed

lemma wf_scrape_linkedin_leads:
  "wf_scraper s \<Longrightarrow> wf_scraper (fst (snd (scrape_linkedin_leads env q m s)))"
proof (cases "new_page_ok env")
  case False
  then show "wf_scraper s \<Longrightarrow> ?thesis" by (simp add: scrape_linkedin_leads_def)
next
  case True
  assume "wf_scraper s"
  with scrape_linkedin_leads_finish [OF True, of q m s] show ?thesis
    by (auto simp: wf_finish_scrape)
qed

lemma wf_scrape_twitter_leads:
  "wf_scraper s \<Longrightarrow> wf_scraper (fst (snd (scrape_twitter_leads env h m s)))"
proof (cases "new_page_ok env")
  case False
  then show "wf_scraper s \<Longrightarrow> ?thesis" by (simp add: scrape_twitter_leads_def)
next
  case True
  assume "wf_scraper s"
  with scrape_twitter_leads_finish [OF True, of h m s] show ?thesis
    by (auto simp: wf_finish_scrape)
qed

lemma wf_filter_quality_leads:
  "wf_scraper s \<Longrightarrow> wf_scraper (snd (filter_quality_leads kws s))"
  by (auto simp: filter_quality_leads_def wf_scraper_def split: prod.splits)

subsection \<open>Examples of extraction runs\<close>

lemma scrape_linkedin_leads_run:
  assumes "new_page_ok env" "close_ok env" "step_fail env = None"
    and "getenv env ''LINKEDIN_EMAIL'' = Some e" "e \<noteq> []"
    and "getenv env ''LINKEDIN_PASSWORD'' = Some p" "p \<noteq> []"
  shows "scrape_linkedin_leads env q m s =
           (case store_leads (extract_loop (\<lambda>i. linkedin_lead (clock env i)) 0 (slice_to m (containers env)) []) s of
              (refs, s') \<Rightarrow> (Inr refs, s', NewPage # linkedin_steps e p q @ [ClosePage]))"
  using assms by (simp add: scrape_linkedin_leads_def run_steps_None finish_scrape_def)

lemma scrape_twitter_leads_run:
  assumes "new_page_ok env" "close_ok env" "step_fail env = None"
  shows "scrape_twitter_leads env h m s =
           (case store_leads (extract_loop (\<lambda>i. twitter_lead h (clock env i)) 0 (slice_to m (containers env)) []) s of
              (refs, s') \<Rightarrow> (Inr refs, s', NewPage # twitter_steps h @ [ClosePage]))"
  using assms by (simp add: scrape_twitter_leads_def run_steps_None finish_scrape_def)

lemma linkedin_page_of_simps:
  "new_page_ok (linkedin_page_of cs)" "close_ok (linkedin_page_of cs)" "step_fail (linkedin_page_of cs) = None"
  "getenv (linkedin_page_of cs) ''LINKEDIN_EMAIL'' = Some ''me@example.org''"
  "getenv (linkedin_page_of cs) ''LINKEDIN_PASSWORD'' = Some ''secret''"
  "containers (linkedin_page_of cs) = cs"
  "clock (linkedin_page_of cs) i = ''2025-01-01T12:00:00''"
  by (simp_all add: linkedin_page_of_def)

lemma twitter_page_of_simps:
  "new_page_ok (twitter_page_of cs)" "close_ok (twitter_page_of cs)" "step_fail (twitter_page_of cs) = None"
  "containers (twitter_page_of cs) = cs"
  "clock (twitter_page_of cs) i = ''2025-01-01T12:00:00''"
  by (simp_all add: twitter_page_of_def)

lemma linkedin_lead_examples:
  "linkedin_lead now good_profile =
     Some [(''name'', Str ''Ann Lee''), (''headline'', Str ''Founder''), (''location'', Str ''Kampala''),
           (''profile_url'', Str ''https://www.linkedin.com/in/ann''), (''platform'', Str ''linkedin''),
           (''found_date'', Str now)]"
  "linkedin_lead now blank_profile =
     Some [(''name'', Str []), (''headline'', Str ''Founder''), (''location'', Str ''Kampala''),
           (''profile_url'', NoneV), (''platform'', Str ''linkedin''),
           (''found_date'', Str now)]"
  "linkedin_lead now broken_profile = None"
  by (simp_all add: linkedin_lead_def good_profile_def blank_profile_def broken_profile_def strip_def is_space_def)

lemma twitter_lead_examples:
  "twitter_lead h now good_tweet =
     Some [(''name'', Str ''Ann Lee''), (''handle'', Str ''@annlee''),
           (''tweet_text'', Str ''Looking for a chatbot #smallbusiness''), (''platform'', Str ''twitter''),
           (''hashtag'', Str h), (''found_date'', Str now)]"
  "twitter_lead h now broken_tweet = None"
  by (simp_all add: twitter_lead_def good_tweet_def broken_tweet_def strip_def is_space_def index_def)

lemma profile_ok_examples: "profile_ok good_profile" "profile_ok blank_profile" "\<not> profile_ok broken_profile"
  by (simp_all add: profile_ok_def good_profile_def blank_profile_def broken_profile_def)

lemma tweet_ok_examples: "tweet_ok good_tweet" "\<not> tweet_ok broken_tweet"
  by (simp_all add: tweet_ok_def good_tweet_def broken_tweet_def)

lemma store_leads_fst: "fst (store_leads ds s) = [next_ref s ..< next_ref s + length ds]"
  by (simp add: store_leads_def Let_def)

lemma store_leads_objs:
  "objs (snd (store_leads ds s)) r =
     (if next_ref s \<le> r \<and> r < next_ref s + length ds then ds ! (r - next_ref s) else objs s r)"
  by (simp add: store_leads_def Let_def)

lemma scrape_linkedin_leads_run_fst:
  assumes "new_page_ok env" "close_ok env" "step_fail env = None"
    and "getenv env ''LINKEDIN_EMAIL'' = Some e" "e \<noteq> []"
    and "getenv env ''LINKEDIN_PASSWORD'' = Some p" "p \<noteq> []"
  shows "fst (scrape_linkedin_leads env q m s) =
           Inr (fst (store_leads (extract_loop (\<lambda>i. linkedin_lead (clock env i)) 0 (slice_to m (containers env)) []) s))"
    and "fst (snd (scrape_linkedin_leads env q m s)) =
           snd (store_leads (extract_loop (\<lambda>i. linkedin_lead (clock env i)) 0 (slice_to m (containers env)) []) s)"
  by (simp_all add: scrape_linkedin_leads_run [OF assms] split: prod.split)

lemma scrape_twitter_leads_run_fst:
  assumes "new_page_ok env" "close_ok env" "step_fail env = None"
  shows "fst (scrape_twitter_leads env h m s) =
           Inr (fst (store_leads (extract_loop (\<lambda>i. twitter_lead h (clock env i)) 0 (slice_to m (containers env)) []) s))"
    and "fst (snd (scrape_twitter_leads env h m s)) =
           snd (store_leads (extract_loop (\<lambda>i. twitter_lead h (clock env i)) 0 (slice_to m (containers env)) []) s)"
  by (simp_all add: scrape_twitter_leads_run [OF assms] split: prod.split)

lemmas linkedin_example_run =
  scrape_linkedin_leads_run_fst [OF linkedin_page_of_simps(1,2,3,4) _ linkedin_page_of_simps(5), simplified]

lemmas twitter_example_run =
  scrape_twitter_leads_run_fst [OF twitter_page_of_simps(1,2,3)]

text \<open>
  A container whose title is a blank gives a lead with an empty name; and with
  \<^verbatim>\<open>max_results = -1\<close> a page of two containers gives one lead.
\<close>

theorem scrape_linkedin_leads_blank_name_negative_cap:
  "fst (scrape_linkedin_leads (linkedin_page_of [blank_profile]) ''ceo'' 50 init_scraper) = Inr [0]
   \<and> dict_get (objs (fst (snd (scrape_linkedin_leads (linkedin_page_of [blank_profile]) ''ceo'' 50 init_scraper))) 0) ''name''
       = Some (Str [])
   \<and> fst (scrape_linkedin_leads (linkedin_page_of [good_profile, good_profile]) ''ceo'' (- 1) init_scraper) = Inr [0]
   \<and> \<not> int (length [0 :: ref]) \<le> - 1"
  by (simp add: linkedin_example_run linkedin_page_of_simps slice_to_def linkedin_lead_examples
        store_leads_fst store_leads_objs init_scraper_def dict_get_def)

lemma not_set_examples: "\<not> not_set (Some ''me@example.org'')" "\<not> not_set (Some ''secret'')" "not_set None"
  by (simp_all add: not_set_def)

lemma offline_simps:
  "new_page_ok offline_linkedin" "close_ok offline_linkedin"
  "step_fail offline_linkedin = Some (0, ''net::ERR_INTERNET_DISCONNECTED'')"
  "getenv offline_linkedin ''LINKEDIN_EMAIL'' = Some ''me@example.org''"
  "getenv offline_linkedin ''LINKEDIN_PASSWORD'' = Some ''secret''"
  "new_page_ok offline_twitter" "close_ok offline_twitter"
  "step_fail offline_twitter = Some (0, ''net::ERR_INTERNET_DISCONNECTED'')"
  by (simp_all add: offline_linkedin_def offline_twitter_def linkedin_page_of_def twitter_page_of_def)

text \<open>Runs capped at one and at two leads.\<close>

theorem scrape_leads_capped_and_tagged_witness:
  "fst (scrape_linkedin_leads (linkedin_page_of [good_profile, broken_profile, good_profile]) ''founder'' 1 init_scraper) = Inr [0]
   \<and> int (length [0 :: ref]) \<le> 1
   \<and> dict_get (objs (fst (snd (scrape_linkedin_leads (linkedin_page_of [good_profile, broken_profile, good_profile]) ''founder'' 1 init_scraper))) 0) ''platform''
       = Some (Str ''linkedin'')
   \<and> fst (scrape_twitter_leads (twitter_page_of [broken_tweet, good_tweet]) ''#smallbusiness'' 2 init_scraper) = Inr [0]
   \<and> dict_get (objs (fst (snd (scrape_twitter_leads (twitter_page_of [broken_tweet, good_tweet]) ''#smallbusiness'' 2 init_scraper))) 0) ''platform''
       = Some (Str ''twitter'')"
proof -
  let ?L = "scrape_linkedin_leads (linkedin_page_of [good_profile, broken_profile, good_profile]) ''founder'' 1 init_scraper"
  let ?T = "scrape_twitter_leads (twitter_page_of [broken_tweet, good_tweet]) ''#smallbusiness'' 2 init_scraper"
  have fL: "fst ?L = Inr [0]"
    by (simp add: linkedin_example_run linkedin_page_of_simps slice_to_def linkedin_lead_examples
          store_leads_fst init_scraper_def)
  have fT: "fst ?T = Inr [0]"
    by (simp add: twitter_example_run twitter_page_of_simps slice_to_def twitter_lead_examples
          store_leads_fst init_scraper_def)
  from fL have eL: "?L = (Inr [0], fst (snd ?L), snd (snd ?L))" by (metis prod.collapse)
  from fT have eT: "?T = (Inr [0], fst (snd ?T), snd (snd ?T))" by (metis prod.collapse)
  note T = scrape_leads_capped_and_tagged
    [where env = "linkedin_page_of [good_profile, broken_profile, good_profile]" and q = "''founder''"
       and m = 1 and s = init_scraper and refs = "[0]" and s' = "fst (snd ?L)" and tr = "snd (snd ?L)"
       and env' = "twitter_page_of [broken_tweet, good_tweet]" and h = "''#smallbusiness''"
       and m' = 2 and refs' = "[0]" and s'' = "fst (snd ?T)" and tr' = "snd (snd ?T)"]
  from T eL have 1: "int (length [0 :: ref]) \<le> 1" by simp
  from T eL have "\<forall>r\<in>set [0]. dict_get (objs (fst (snd ?L)) r) ''platform'' = Some (Str ''linkedin'')"
    by blast
  then have 2: "dict_get (objs (fst (snd ?L)) 0) ''platform'' = Some (Str ''linkedin'')" by simp
  from T eT have "\<forall>r\<in>set [0]. dict_get (objs (fst (snd ?T)) r) ''platform'' = Some (Str ''twitter'')"
    by blast
  then have 3: "dict_get (objs (fst (snd ?T)) 0) ''platform'' = Some (Str ''twitter'')" by simp
  from fL 1 2 fT 3 show ?thesis by blast
qed

text \<open>One malformed container among ten: nine leads. One among three tweets: two leads.\<close>

theorem extraction_skips_malformed_containers_witness:
  "length ten_profiles = 10
   \<and> length (filter (\<lambda>p. \<not> profile_ok p) ten_profiles) = 1
   \<and> (\<exists>refs s' tr. scrape_linkedin_leads (linkedin_page_of ten_profiles) ''founder'' 50 init_scraper = (Inr refs, s', tr)
        \<and> length refs = 9)
   \<and> (\<exists>refs s' tr. scrape_twitter_leads (twitter_page_of [good_tweet, broken_tweet, good_tweet]) ''#smallbusiness'' 50 init_scraper
          = (Inr refs, s', tr)
        \<and> length refs = 2)"
proof -
  have len: "length ten_profiles = 10" by (simp add: ten_profiles_def)
  have bad: "length (filter (\<lambda>p. \<not> profile_ok p) ten_profiles) = 1"
    by (simp add: ten_profiles_def profile_ok_examples)
  have sl: "slice_to 50 ten_profiles = ten_profiles" by (simp add: slice_to_def len)
  have st: "slice_to 50 [good_tweet, broken_tweet, good_tweet] = [good_tweet, broken_tweet, good_tweet]"
    by (simp add: slice_to_def)
  have badt: "length (filter (\<lambda>t. \<not> tweet_ok t) [good_tweet, broken_tweet, good_tweet]) = 1"
    by (simp add: tweet_ok_examples)
  note T = extraction_skips_malformed_containers
    [where env = "linkedin_page_of ten_profiles" and q = "''founder''" and m = 50 and s = init_scraper
       and env' = "twitter_page_of [good_tweet, broken_tweet, good_tweet]" and h = "''#smallbusiness''" and m' = 50]
  have hypL: "new_page_ok (linkedin_page_of ten_profiles) \<and> close_ok (linkedin_page_of ten_profiles)
      \<and> step_fail (linkedin_page_of ten_profiles) = None
      \<and> \<not> not_set (getenv (linkedin_page_of ten_profiles) ''LINKEDIN_EMAIL'')
      \<and> \<not> not_set (getenv (linkedin_page_of ten_profiles) ''LINKEDIN_PASSWORD'')"
    by (simp add: linkedin_page_of_simps not_set_examples)
  have hypT: "new_page_ok (twitter_page_of [good_tweet, broken_tweet, good_tweet])
      \<and> close_ok (twitter_page_of [good_tweet, broken_tweet, good_tweet])
      \<and> step_fail (twitter_page_of [good_tweet, broken_tweet, good_tweet]) = None"
    by (simp add: twitter_page_of_simps)
  from T hypL obtain refs s' tr where
    "scrape_linkedin_leads (linkedin_page_of ten_profiles) ''founder'' 50 init_scraper = (Inr refs, s', tr)"
    "length (filter (\<lambda>p. \<not> profile_ok p) (slice_to 50 (containers (linkedin_page_of ten_profiles)))) = 1
       \<longrightarrow> length refs = length (slice_to 50 (containers (linkedin_page_of ten_profiles))) - 1"
    by blast
  then have L: "\<exists>refs s' tr. scrape_linkedin_leads (linkedin_page_of ten_profiles) ''founder'' 50 init_scraper = (Inr refs, s', tr)
        \<and> length refs = 9"
    by (simp add: linkedin_page_of_simps sl bad len)
  from T hypT obtain refs s' tr where
    "scrape_twitter_leads (twitter_page_of [good_tweet, broken_tweet, good_tweet]) ''#smallbusiness'' 50 init_scraper = (Inr refs, s', tr)"
    "length (filter (\<lambda>t. \<not> tweet_ok t) (slice_to 50 (containers (twitter_page_of [good_tweet, broken_tweet, good_tweet])))) = 1
       \<longrightarrow> length refs = length (slice_to 50 (containers (twitter_page_of [good_tweet, broken_tweet, good_tweet]))) - 1"
    by blast
  then have R: "\<exists>refs s' tr. scrape_twitter_leads (twitter_page_of [good_tweet, broken_tweet, good_tweet]) ''#smallbusiness'' 50 init_scraper
          = (Inr refs, s', tr) \<and> length refs = 2"
    by (simp add: twitter_page_of_simps st tweet_ok_examples)
  from len bad L R show ?thesis by blast
qed

text \<open>The first \<^verbatim>\<open>goto\<close> raises, and the methods return the empty list.\<close>

theorem scrape_returns_empty_when_navigation_fails:
  "step_fail offline_twitter = Some (0, ''net::ERR_INTERNET_DISCONNECTED'')
   \<and> fst (scrape_twitter_leads offline_twitter ''#smallbusiness'' 50 init_scraper) = Inr []
   \<and> step_fail offline_linkedin = Some (0, ''net::ERR_INTERNET_DISCONNECTED'')
   \<and> fst (scrape_linkedin_leads offline_linkedin ''founder'' 50 init_scraper) = Inr []"
  by (simp add: offline_simps scrape_twitter_leads_def scrape_linkedin_leads_def run_steps_def
        length_twitter_steps length_linkedin_steps finish_scrape_Nil)

text \<open>The same runs on a scraper that holds two leads: nothing is raised, nothing changes.\<close>

theorem scrape_raises_only_for_page_witness:
  "new_page_ok offline_linkedin \<and> close_ok offline_linkedin
   \<and> step_fail offline_linkedin = Some (0, ''net::ERR_INTERNET_DISCONNECTED'')
   \<and> \<not> (\<exists>e. fst (scrape_linkedin_leads offline_linkedin ''founder'' 50 two_leads) = Inl e)
   \<and> fst (snd (scrape_linkedin_leads offline_linkedin ''founder'' 50 two_leads)) = two_leads
   \<and> new_page_ok offline_twitter \<and> close_ok offline_twitter
   \<and> \<not> (\<exists>e. fst (scrape_twitter_leads offline_twitter ''#smallbusiness'' 50 two_leads) = Inl e)
   \<and> fst (snd (scrape_twitter_leads offline_twitter ''#smallbusiness'' 50 two_leads)) = two_leads"
proof -
  note T = scrape_raises_only_for_page
    [where env = offline_linkedin and q = "''founder''" and m = 50 and s = two_leads and i = 0
       and msg = "''net::ERR_INTERNET_DISCONNECTED''"
       and env' = offline_twitter and h = "''#smallbusiness''" and m' = 50 and j = 0
       and msg' = "''net::ERR_INTERNET_DISCONNECTED''"]
  have hypL: "new_page_ok offline_linkedin \<and> close_ok offline_linkedin
        \<and> step_fail offline_linkedin = Some (0, ''net::ERR_INTERNET_DISCONNECTED'') \<and> (0::nat) < 9
        \<and> \<not> not_set (getenv offline_linkedin ''LINKEDIN_EMAIL'') \<and> \<not> not_set (getenv offline_linkedin ''LINKEDIN_PASSWORD'')"
    by (simp add: offline_simps not_set_examples)
  have hypT: "new_page_ok offline_twitter \<and> close_ok offline_twitter
        \<and> step_fail offline_twitter = Some (0, ''net::ERR_INTERNET_DISCONNECTED'') \<and> (0::nat) < 7"
    by (simp add: offline_simps)
  from T hypL hypT show ?thesis by blast
qed

section \<open>Properties of the posting methods\<close>

subsection \<open>The adapters\<close>

lemma failure_success: "dict_get (failure e) ''success'' = Some (BoolV False)"
  by (simp add: failure_def dict_get_def)

lemma has_success_failure: "has_success (failure e)"
  unfolding has_success_def failure_success by blast

lemma has_success_Cons: "has_success ((''success'', BoolV b) # r)"
  unfolding has_success_def dict_get_def by simp

lemma post_to_facebook_success: "has_success (fst (post_to_facebook self env message image_url))"
  unfolding post_to_facebook_def Let_def
  by (simp add: has_success_failure has_success_Cons split: option.split reply.split sum.split list.split)

lemma post_to_instagram_success: "has_success (fst (post_to_instagram self env image_url caption))"
  unfolding post_to_instagram_def Let_def
  by (simp add: has_success_failure has_success_Cons split: option.split reply.split sum.split list.split)

lemma try_steps_success: "has_success result \<Longrightarrow> has_success (snd (try_steps pg steps result))"
  by (simp add: try_steps_def has_success_failure split: prod.split option.split)

lemma with_page_Inr:
  "new_page_ok pg \<Longrightarrow> close_ok pg \<Longrightarrow>
     with_page pg body = (Inr (snd body), NewPage # fst body @ [ClosePage])"
  by (simp add: with_page_def split: prod.split)

lemma with_page_raises:
  "(\<exists>e. fst (with_page pg body) = Inl e) \<longleftrightarrow> \<not> new_page_ok pg \<or> \<not> close_ok pg"
  by (auto simp: with_page_def split: prod.split)

lemma post_to_linkedin_Inr:
  assumes "new_page_ok (linkedin_page env)" "close_ok (linkedin_page env)"
  shows "\<exists>r. fst (post_to_linkedin self env content image_path) = Inr r \<and> has_success r"
  unfolding post_to_linkedin_def Let_def
  by (simp add: with_page_Inr [OF assms] has_success_failure has_success_Cons try_steps_success
        split: option.split sum.split prod.split)

lemma post_to_twitter_Inr:
  assumes "new_page_ok (twitter_page env)" "close_ok (twitter_page env)"
  shows "\<exists>r. fst (post_to_twitter self env content image_path) = Inr r \<and> has_success r"
  unfolding post_to_twitter_def Let_def
  by (simp add: with_page_Inr [OF assms] has_success_failure has_success_Cons try_steps_success
        split: option.split sum.split prod.split)

lemma post_to_medium_Inr:
  assumes "new_page_ok (medium_page env)" "close_ok (medium_page env)"
  shows "\<exists>r. fst (post_to_medium env title content tags) = Inr r \<and> has_success r"
  unfolding post_to_medium_def Let_def
  by (simp add: with_page_Inr [OF assms] has_success_failure has_success_Cons try_steps_success
        split: option.split sum.split prod.split)

lemma with_page_result: "with_page pg body = (Inr r, calls) \<Longrightarrow> r = snd body"
  by (auto simp: with_page_def split: if_splits prod.splits)

lemma post_to_linkedin_success:
  "post_to_linkedin self env content image_path = (Inr r, calls) \<Longrightarrow> has_success r"
  unfolding post_to_linkedin_def Let_def
  by (auto simp: has_success_failure has_success_Cons try_steps_success
        split: option.splits sum.splits if_splits dest!: with_page_result)

lemma post_to_twitter_success:
  "post_to_twitter self env content image_path = (Inr r, calls) \<Longrightarrow> has_success r"
  unfolding post_to_twitter_def Let_def
  by (auto simp: has_success_failure has_success_Cons try_steps_success
        split: option.splits sum.splits if_splits dest!: with_page_result)

lemma post_to_medium_success:
  "post_to_medium env title content tags = (Inr r, calls) \<Longrightarrow> has_success r"
  unfolding post_to_medium_def Let_def
  by (auto simp: has_success_failure has_success_Cons try_steps_success
        split: option.splits sum.splits if_splits dest!: with_page_result)

lemma post_to_facebook_unreachable:
  "\<not> not_set (meta_token self) \<Longrightarrow> fb_accounts env = Raises e \<Longrightarrow>
     fst (post_to_facebook self env message image_url) = failure (Str e)"
  by (auto simp: post_to_facebook_def not_set_def Let_def split: option.splits)

lemma try_steps_first_fails:
  "step_fail pg = Some (0, msg) \<Longrightarrow> steps \<noteq> [] \<Longrightarrow> snd (try_steps pg steps result) = failure (Str msg)"
  by (simp add: try_steps_def run_steps_def)

lemma post_to_twitter_first_fails:
  assumes "\<not> not_set (twitter_email self)" "\<not> not_set (twitter_password self)"
    and "step_fail (twitter_page env) = Some (0, msg)"
    and "fst (post_to_twitter self env content image_path) = Inr r"
  shows "r = failure (Str msg)"
proof -
  from assms(1,2) obtain email password where c: "twitter_email self = Some email" "email \<noteq> []"
    "twitter_password self = Some password" "password \<noteq> []"
    by (auto simp: not_set_def split: option.splits)
  from assms(4) obtain calls where "post_to_twitter self env content image_path = (Inr r, calls)"
    by (cases "post_to_twitter self env content image_path") simp
  with c show ?thesis
    by (auto simp: post_to_twitter_def Let_def twitter_post_steps_def try_steps_first_fails [OF assms(3)]
          split: sum.splits dest!: with_page_result)
qed

lemma post_to_linkedin_not_set:
  "not_set (linkedin_email self) \<or> not_set (linkedin_password self) \<Longrightarrow>
     post_to_linkedin self env content image_path = (Inr (failure (Str ''LinkedIn credentials not set'')), [])"
  by (auto simp: post_to_linkedin_def not_set_def split: option.splits)

lemma post_to_twitter_not_set:
  "not_set (twitter_email self) \<or> not_set (twitter_password self) \<Longrightarrow>
     post_to_twitter self env content image_path = (Inr (failure (Str ''Twitter credentials not set'')), [])"
  by (auto simp: post_to_twitter_def not_set_def split: option.splits)

lemma post_to_facebook_not_set:
  "not_set (meta_token self) \<Longrightarrow>
     post_to_facebook self env message image_url = (failure (Str ''META_ACCESS_TOKEN not set''), [])"
  by (auto simp: post_to_facebook_def not_set_def split: option.splits)

lemma post_to_instagram_not_set:
  "not_set (meta_token self) \<Longrightarrow>
     post_to_instagram self env image_url caption = (failure (Str ''META_ACCESS_TOKEN not set''), [])"
  by (auto simp: post_to_instagram_def not_set_def split: option.splits)

lemma scrape_linkedin_leads_not_set:
  assumes "not_set (getenv env ''LINKEDIN_EMAIL'') \<or> not_set (getenv env ''LINKEDIN_PASSWORD'')"
  shows "scrape_linkedin_leads env q m s =
           (if \<not> new_page_ok env then (Inl PageOpenFailed, s, [NewPage])
            else if \<not> close_ok env then (Inl PageCloseFailed, s, [NewPage, ClosePage])
            else (Inr [], s, [NewPage, ClosePage]))"
  using assms
  by (auto simp: scrape_linkedin_leads_def finish_scrape_def not_set_def split: option.splits)

subsection \<open>The blocks of \<^verbatim>\<open>post_to_all_platforms\<close>\<close>

lemma update_fresh: "k \<notin> fst ` set al \<Longrightarrow> AList.update k v al = al @ [(k, v)]"
  by (induction al) auto

lemma block_returns:
  "returns call \<Longrightarrow> name \<notin> fst ` set res \<Longrightarrow>
     block name call res = (Inr (res @ entry name call), calls_of call)"
  by (auto simp: block_def returns_def entry_def calls_of_def update_fresh split: option.splits sum.splits prod.splits)

lemma fst_set_entry: "fst ` set (entry name call) \<subseteq> {name}"
  by (auto simp: entry_def split: option.splits sum.splits prod.splits)

lemma run_blocks_closed:
  "distinct (map fst bs) \<Longrightarrow> \<forall>b\<in>set bs. returns (snd b) \<Longrightarrow> fst ` set bs \<inter> fst ` set res = {} \<Longrightarrow>
     run_blocks bs (Inr res, calls) =
       (Inr (res @ concat (map (\<lambda>b. entry (fst b) (snd b)) bs)), calls @ concat (map (\<lambda>b. calls_of (snd b)) bs))"
proof (induction bs arbitrary: res calls)
  case Nil
  then show ?case by simp
next
  case (Cons b bs)
  obtain name call where b: "b = (name, call)" by (cases b)
  from Cons.prems b have ret: "returns call" and fresh: "name \<notin> fst ` set res"
    and d: "distinct (map fst bs)" and rest: "\<forall>b\<in>set bs. returns (snd b)" and nb: "name \<notin> fst ` set bs"
    by auto
  have step: "and_then (Inr res, calls) (block name call) = (Inr (res @ entry name call), calls @ calls_of call)"
    by (simp add: and_then_def block_returns [OF ret fresh])
  have disj: "fst ` set bs \<inter> fst ` set (res @ entry name call) = {}"
    using Cons.prems(3) nb fst_set_entry [of name call] b by auto
  show ?case
    by (simp add: b step Cons.IH [OF d rest disj])
qed

lemma facebook_block_eq:
  "facebook_block self env content res = block ''facebook'' (attempt self env content ''facebook'') res"
  by (simp add: facebook_block_def block_def attempt_def publish_def split: option.split prod.split)

lemma instagram_block_eq:
  "instagram_block self env content res = block ''instagram'' (attempt self env content ''instagram'') res"
  by (simp add: instagram_block_def block_def attempt_def publish_def split: option.split prod.split)

lemma linkedin_block_eq:
  "linkedin_block self env content res = block ''linkedin'' (attempt self env content ''linkedin'') res"
  by (simp add: linkedin_block_def block_def attempt_def publish_def split: option.split prod.split sum.split)

lemma twitter_block_eq:
  "twitter_block self env content res = block ''twitter'' (attempt self env content ''twitter'') res"
  by (simp add: twitter_block_def block_def attempt_def publish_def split: option.split prod.split sum.split)

lemma medium_block_eq:
  "medium_block env content res = block ''medium'' (attempt self env content ''medium'') res"
  by (simp add: medium_block_def block_def attempt_def publish_def split: option.split prod.split sum.split)

lemma and_then_start: "and_then (Inr [], []) f = f []"
  by (simp add: and_then_def split: prod.split)

lemma post_to_all_platforms_blocks:
  "post_to_all_platforms self env content =
     run_blocks (map (\<lambda>name. (name, attempt self env content name)) platforms) (Inr [], [])"
proof -
  have "block ''facebook'' (attempt self env content ''facebook'') []
        = and_then (Inr [], []) (block ''facebook'' (attempt self env content ''facebook''))"
    by (simp only: and_then_start)
  then show ?thesis
    unfolding post_to_all_platforms_def platforms_def
      facebook_block_eq instagram_block_eq linkedin_block_eq twitter_block_eq medium_block_eq [of env content _ self]
    by (simp add: ext [of "medium_block env content" "block ''medium'' (attempt self env content ''medium'')", OF medium_block_eq]
                  ext [of "twitter_block self env content" "block ''twitter'' (attempt self env content ''twitter'')", OF twitter_block_eq]
                  ext [of "linkedin_block self env content" "block ''linkedin'' (attempt self env content ''linkedin'')", OF linkedin_block_eq]
                  ext [of "instagram_block self env content" "block ''instagram'' (attempt self env content ''instagram'')", OF instagram_block_eq])
qed

subsection \<open>The result map\<close>

lemma publish_returns:
  assumes "pages_open_and_close env" and "publish self env name payload = Some out"
  shows "\<exists>r. fst out = Inr r \<and> has_success r"
proof -
  from assms(1) have pg:
    "new_page_ok (linkedin_page env)" "close_ok (linkedin_page env)"
    "new_page_ok (twitter_page env)" "close_ok (twitter_page env)"
    "new_page_ok (medium_page env)" "close_ok (medium_page env)"
    by (simp_all add: pages_open_and_close_def)
  from assms(2) consider
      (fb) "out = (case post_to_facebook self env (get_default payload ''message'' (Str []))
                     (get_default payload ''image_url'' NoneV) of (r, calls) \<Rightarrow> (Inr r, calls))"
    | (ig) "out = (case post_to_instagram self env (get_default payload ''image_url'' (Str []))
                     (get_default payload ''caption'' (Str [])) of (r, calls) \<Rightarrow> (Inr r, calls))"
    | (li) "out = post_to_linkedin self env (get_default payload ''content'' (Str []))
                (get_default payload ''image_path'' NoneV)"
    | (tw) "out = post_to_twitter self env (get_default payload ''content'' (Str []))
                (get_default payload ''image_path'' NoneV)"
    | (md) "out = post_to_medium env (get_default payload ''title'' (Str []))
                (get_default payload ''content'' (Str []))
                (get_default payload ''tags'' (ListV []))"
    by (auto simp: publish_def split: if_splits)
  then show ?thesis
  proof cases
    case fb
    with post_to_facebook_success [of self env "get_default payload ''message'' (Str [])" "get_default payload ''image_url'' NoneV"]
    show ?thesis by (auto split: prod.splits)
  next
    case ig
    with post_to_instagram_success [of self env "get_default payload ''image_url'' (Str [])" "get_default payload ''caption'' (Str [])"]
    show ?thesis by (auto split: prod.splits)
  next
    case li
    with post_to_linkedin_Inr [OF pg(1,2)] show ?thesis by simp
  next
    case tw
    with post_to_twitter_Inr [OF pg(3,4)] show ?thesis by simp
  next
    case md
    with post_to_medium_Inr [OF pg(5,6)] show ?thesis by simp
  qed
qed

lemma post_to_facebook_result:
  "post_to_facebook self env message image_url = (r, calls) \<Longrightarrow> has_success r"
  using post_to_facebook_success [of self env message image_url] by simp

lemma post_to_instagram_result:
  "post_to_instagram self env image_url caption = (r, calls) \<Longrightarrow> has_success r"
  using post_to_instagram_success [of self env image_url caption] by simp

lemma publish_success:
  "publish self env name payload = Some (Inr r, calls) \<Longrightarrow> has_success r"
  by (auto simp: publish_def split: if_splits prod.splits
        dest: post_to_facebook_result post_to_instagram_result post_to_linkedin_success
              post_to_twitter_success post_to_medium_success)

lemma attempt_success:
  "attempt self env content name = Some (Inr r, calls) \<Longrightarrow> has_success r"
  by (auto simp: attempt_def split: option.splits dest: publish_success)

lemma pages_no_adapter_raises:
  assumes "pages_open_and_close env"
  shows "no_adapter_raises self env content"
proof -
  have "returns (attempt self env content name)" for name
  proof (cases "attempt self env content name")
    case None
    then show ?thesis by (simp add: returns_def)
  next
    case (Some out)
    then obtain payload where "publish self env name payload = Some out"
      by (auto simp: attempt_def split: option.splits)
    from publish_returns [OF assms this] Some show ?thesis
      by (cases out) (auto simp: returns_def)
  qed
  then show ?thesis by (simp add: no_adapter_raises_def list_all_iff)
qed

lemma attempt_known:
  "name \<in> set platforms \<Longrightarrow> attempt self env content name \<noteq> None \<longleftrightarrow> requested content name \<noteq> None"
  by (auto simp: attempt_def publish_def platforms_def split: option.splits)

lemma map_fst_entries:
  "\<forall>name\<in>set names. returns (call name) \<Longrightarrow>
     map fst (concat (map (\<lambda>name. entry name (call name)) names)) = filter (\<lambda>name. call name \<noteq> None) names"
  by (induction names) (auto simp: entry_def returns_def split: option.splits sum.splits prod.splits)

lemma map_of_entries_other:
  "name \<notin> set names \<Longrightarrow> map_of (concat (map (\<lambda>n. entry n (call n)) names)) name = None"
  by (induction names) (auto simp: entry_def map_add_def split: option.splits sum.splits prod.splits)

lemma map_of_entries:
  "distinct names \<Longrightarrow> name \<in> set names \<Longrightarrow>
     map_of (concat (map (\<lambda>n. entry n (call n)) names)) name
       = (case call name of Some (Inr r, calls) \<Rightarrow> Some r | _ \<Rightarrow> None)"
proof (induction names)
  case Nil
  then show ?case by simp
next
  case (Cons n names)
  show ?case
  proof (cases "name = n")
    case True
    with Cons.prems have "name \<notin> set names" by simp
    from map_of_entries_other [OF this, of call] True show ?thesis
      by (auto simp: entry_def map_add_def split: option.splits sum.splits prod.splits)
  next
    case False
    with Cons.prems have "distinct names" "name \<in> set names" by simp_all
    from Cons.IH [OF this] False show ?thesis
      by (auto simp: entry_def map_add_def split: option.splits sum.splits prod.splits)
  qed
qed

lemma distinct_platforms: "distinct platforms"
  by (simp add: platforms_def)

text \<open>
  Claim C4, as the code has it. When no adapter that is called raises (the three
  browser adapters raise only while opening or closing their page),
  \<^verbatim>\<open>post_to_all_platforms\<close> returns a result map whose keys are exactly the platforms
  among facebook, instagram, linkedin, twitter and medium whose payload in the request
  is present and not empty, each once and in that order. The entry of a platform is the
  outcome of its own adapter on its own payload and carries a success flag, whatever
  the other adapters did; and the calls made are those of every such platform, one
  after the other, so that a failure of one adapter (a missing credential, an exception
  in its \<^verbatim>\<open>try\<close> block, an endpoint that cannot be reached) neither keeps the later
  ones from being attempted nor removes an entry. Such a failure shows as an entry with
  \<^verbatim>\<open>success = False\<close> and the text of the exception: so for the Graph API endpoint
  that cannot be reached, and so for the Twitter page whose first call raises.
\<close>

theorem post_to_all_platforms_entries:
  assumes "no_adapter_raises self env content"
  shows "\<exists>res calls. post_to_all_platforms self env content = (Inr res, calls)
      \<and> map fst res = filter (\<lambda>name. requested content name \<noteq> None) platforms
      \<and> (\<forall>name\<in>set platforms. map_option Inr (map_of res name) = map_option fst (attempt self env content name))
      \<and> (\<forall>name r. map_of res name = Some r \<longrightarrow> has_success r)
      \<and> (\<forall>e. requested content ''facebook'' \<noteq> None \<and> \<not> not_set (meta_token self)
                \<and> fb_accounts env = Raises e
              \<longrightarrow> map_of res ''facebook'' = Some (failure (Str e)))
      \<and> (\<forall>msg. requested content ''twitter'' \<noteq> None
                \<and> \<not> not_set (twitter_email self) \<and> \<not> not_set (twitter_password self)
                \<and> step_fail (twitter_page env) = Some (0, msg)
              \<longrightarrow> map_of res ''twitter'' = Some (failure (Str msg)))
      \<and> calls = concat (map (\<lambda>name. calls_of (attempt self env content name)) platforms)"
proof -
  let ?call = "attempt self env content"
  let ?res = "concat (map (\<lambda>name. entry name (?call name)) platforms)"
  let ?calls = "concat (map (\<lambda>name. calls_of (?call name)) platforms)"
  have ret: "\<forall>name\<in>set platforms. returns (?call name)"
    using assms by (simp add: no_adapter_raises_def list_all_iff)
  have "run_blocks (map (\<lambda>name. (name, ?call name)) platforms) (Inr [], [])
        = (Inr ([] @ concat (map (\<lambda>b. entry (fst b) (snd b)) (map (\<lambda>name. (name, ?call name)) platforms))),
           [] @ concat (map (\<lambda>b. calls_of (snd b)) (map (\<lambda>name. (name, ?call name)) platforms)))"
    by (rule run_blocks_closed) (simp_all add: comp_def distinct_platforms ret)
  then have run: "post_to_all_platforms self env content = (Inr ?res, ?calls)"
    by (simp add: post_to_all_platforms_blocks comp_def)
  have "map fst ?res = filter (\<lambda>name. ?call name \<noteq> None) platforms"
    by (rule map_fst_entries [OF ret])
  also have "\<dots> = filter (\<lambda>name. requested content name \<noteq> None) platforms"
    by (rule filter_cong [OF refl]) (erule attempt_known)
  finally have keys: "map fst ?res = filter (\<lambda>name. requested content name \<noteq> None) platforms" .
  have each: "\<forall>name\<in>set platforms. map_option Inr (map_of ?res name) = map_option fst (?call name)"
  proof
    fix name assume n: "name \<in> set platforms"
    from ret n have "returns (?call name)" by blast
    then show "map_option Inr (map_of ?res name) = map_option fst (?call name)"
      by (simp add: map_of_entries [OF distinct_platforms n] returns_def split: option.splits sum.splits prod.splits)
  qed
  have succ: "\<forall>name r. map_of ?res name = Some r \<longrightarrow> has_success r"
  proof (intro allI impI)
    fix name r assume m: "map_of ?res name = Some r"
    then have n: "name \<in> set platforms"
      using map_of_entries_other [of name platforms ?call] by (cases "name \<in> set platforms") auto
    from m have "\<exists>calls. ?call name = Some (Inr r, calls)"
      by (simp add: map_of_entries [OF distinct_platforms n] split: option.splits sum.splits prod.splits)
    with attempt_success show "has_success r" by blast
  qed
  have fb: "\<forall>e. requested content ''facebook'' \<noteq> None \<and> \<not> not_set (meta_token self)
                \<and> fb_accounts env = Raises e
              \<longrightarrow> map_of ?res ''facebook'' = Some (failure (Str e))"
  proof (intro allI impI)
    fix e
    assume a: "requested content ''facebook'' \<noteq> None \<and> \<not> not_set (meta_token self)
                \<and> fb_accounts env = Raises e"
    then obtain payload where p: "requested content ''facebook'' = Some payload" by auto
    from each have "map_option Inr (map_of ?res ''facebook'') = map_option fst (?call ''facebook'')"
      by (simp add: platforms_def)
    also have "\<dots> = Some (Inr (fst (post_to_facebook self env (get_default payload ''message'' (Str []))
                     (get_default payload ''image_url'' NoneV))))"
      by (simp add: attempt_def p publish_def split: prod.split)
    also have "\<dots> = Some (Inr (failure (Str e)))"
      using a by (simp add: post_to_facebook_unreachable)
    finally show "map_of ?res ''facebook'' = Some (failure (Str e))"
      by (cases "map_of ?res ''facebook''") simp_all
  qed
  have tw: "\<forall>msg. requested content ''twitter'' \<noteq> None
                \<and> \<not> not_set (twitter_email self) \<and> \<not> not_set (twitter_password self)
                \<and> step_fail (twitter_page env) = Some (0, msg)
              \<longrightarrow> map_of ?res ''twitter'' = Some (failure (Str msg))"
  proof (intro allI impI)
    fix msg
    assume a: "requested content ''twitter'' \<noteq> None
                \<and> \<not> not_set (twitter_email self) \<and> \<not> not_set (twitter_password self)
                \<and> step_fail (twitter_page env) = Some (0, msg)"
    then obtain payload where p: "requested content ''twitter'' = Some payload" by auto
    let ?post = "post_to_twitter self env (get_default payload ''content'' (Str []))
                   (get_default payload ''image_path'' NoneV)"
    from each have "map_option Inr (map_of ?res ''twitter'') = map_option fst (?call ''twitter'')"
      by (simp add: platforms_def)
    also have "\<dots> = Some (fst ?post)"
      by (simp add: attempt_def p publish_def)
    finally have m: "map_option Inr (map_of ?res ''twitter'') = Some (fst ?post)" .
    then obtain r where r: "map_of ?res ''twitter'' = Some r" "fst ?post = Inr r"
      by (cases "map_of ?res ''twitter''") auto
    from a post_to_twitter_first_fails [OF _ _ _ r(2)] have "r = failure (Str msg)" by blast
    with r(1) show "map_of ?res ''twitter'' = Some (failure (Str msg))" by simp
  qed
  from run keys each succ fb tw show ?thesis by blast
qed

subsection \<open>Missing credentials\<close>

text \<open>
  Claim C8, as the code has it. When a credential that a method needs is missing
  (absent or empty), no navigation is attempted. \<^verbatim>\<open>scrape_linkedin_leads\<close> opens and
  closes its page without a \<^verbatim>\<open>goto\<close>, leaves the scraper as it is and returns the empty
  list, no error. \<^verbatim>\<open>post_to_linkedin\<close>, \<^verbatim>\<open>post_to_twitter\<close>, \<^verbatim>\<open>post_to_facebook\<close> and
  \<^verbatim>\<open>post_to_instagram\<close> make no call at all and return a result with
  \<^verbatim>\<open>success = False\<close> and the error text that names the missing credential.
\<close>

theorem missing_credentials_no_navigation:
  "(not_set (getenv env ''LINKEDIN_EMAIL'') \<or> not_set (getenv env ''LINKEDIN_PASSWORD'') \<longrightarrow>
      (\<forall>a\<in>set (snd (snd (scrape_linkedin_leads env q m s))). \<not> is_goto a)
      \<and> fst (snd (scrape_linkedin_leads env q m s)) = s
      \<and> (new_page_ok env \<and> close_ok env \<longrightarrow> fst (scrape_linkedin_leads env q m s) = Inr []))
   \<and> (not_set (linkedin_email self) \<or> not_set (linkedin_password self) \<longrightarrow>
        post_to_linkedin self penv content image_path
          = (Inr (failure (Str ''LinkedIn credentials not set'')), []))
   \<and> (not_set (twitter_email self) \<or> not_set (twitter_password self) \<longrightarrow>
        post_to_twitter self penv content image_path
          = (Inr (failure (Str ''Twitter credentials not set'')), []))
   \<and> (not_set (meta_token self) \<longrightarrow>
        post_to_facebook self penv message image_url = (failure (Str ''META_ACCESS_TOKEN not set''), [])
        \<and> post_to_instagram self penv image_url caption = (failure (Str ''META_ACCESS_TOKEN not set''), []))"
  by (simp add: scrape_linkedin_leads_not_set post_to_linkedin_not_set post_to_twitter_not_set
        post_to_facebook_not_set post_to_instagram_not_set)

subsection \<open>Examples of posting runs\<close>

lemma sample_web_simps:
  "fb_accounts sample_web = Reply 200 (Inr [[(''id'', Str ''42''), (''access_token'', Str ''page-token'')]])"
  "fb_feed sample_web = Reply 200 (Inr \<lparr>doc_id = Str ''42_1'', doc_value = Str ''{id: 42_1}''\<rparr>)"
  "linkedin_page sample_web = working_page"
  "twitter_page sample_web = working_page\<lparr>step_fail := Some (0, ''Timeout 30000ms exceeded'')\<rparr>"
  "medium_page sample_web = working_page"
  "path_exists sample_web v = Inr False"
  "now_iso sample_web = ''2025-01-01T12:00:00''"
  by (simp_all add: sample_web_def)

lemma full_account_simps:
  "meta_token full_account = Some ''token''"
  "linkedin_email full_account = Some ''me@example.org''" "linkedin_password full_account = Some ''secret''"
  "twitter_email full_account = Some ''me@example.org''" "twitter_password full_account = Some ''secret''"
  by (simp_all add: full_account_def)

lemma pages_sample_web: "pages_open_and_close sample_web"
  by (simp add: pages_open_and_close_def sample_web_def working_page_def)

lemma requested_examples:
  "requested [(''facebook'', [])] name = None"
  "requested [(''facebook'', [(''message'', Str ''Hello'')]), (''twitter'', [(''content'', Str ''Hello'')])] ''facebook''
     = Some [(''message'', Str ''Hello'')]"
  "requested [(''facebook'', [(''message'', Str ''Hello'')]), (''twitter'', [(''content'', Str ''Hello'')])] ''instagram'' = None"
  "requested [(''facebook'', [(''message'', Str ''Hello'')]), (''twitter'', [(''content'', Str ''Hello'')])] ''linkedin'' = None"
  "requested [(''facebook'', [(''message'', Str ''Hello'')]), (''twitter'', [(''content'', Str ''Hello'')])] ''twitter''
     = Some [(''content'', Str ''Hello'')]"
  "requested [(''facebook'', [(''message'', Str ''Hello'')]), (''twitter'', [(''content'', Str ''Hello'')])] ''medium'' = None"
  "requested [(''linkedin'', [(''content'', Str ''Hello'')]), (''twitter'', [(''content'', Str ''Hello'')])] ''facebook'' = None"
  "requested [(''linkedin'', [(''content'', Str ''Hello'')]), (''twitter'', [(''content'', Str ''Hello'')])] ''instagram'' = None"
  "requested [(''linkedin'', [(''content'', Str ''Hello'')]), (''twitter'', [(''content'', Str ''Hello'')])] ''linkedin''
     = Some [(''content'', Str ''Hello'')]"
  by (simp_all add: requested_def)

text \<open>
  A request that names facebook with an empty payload gives an empty result map; and
  when \<^verbatim>\<open>new_page\<close> raises for LinkedIn the method raises, with no result map, and
  Twitter is not attempted.
\<close>

theorem post_to_all_platforms_skips_and_raises:
  "post_to_all_platforms full_account sample_web [(''facebook'', [])] = (Inr [], [])
   \<and> post_to_all_platforms full_account no_browser
        [(''linkedin'', [(''content'', Str ''Hello'')]), (''twitter'', [(''content'', Str ''Hello'')])]
       = (Inl PageOpenFailed, [NewPage])"
proof -
  have 1: "post_to_all_platforms full_account sample_web [(''facebook'', [])] = (Inr [], [])"
    by (simp add: post_to_all_platforms_def and_then_def facebook_block_def instagram_block_def
          linkedin_block_def twitter_block_def medium_block_def requested_examples)
  have "post_to_linkedin full_account no_browser (Str ''Hello'') NoneV = (Inl PageOpenFailed, [NewPage])"
    by (simp add: post_to_linkedin_def full_account_simps no_browser_def with_page_def working_page_def)
  then have 2: "post_to_all_platforms full_account no_browser
        [(''linkedin'', [(''content'', Str ''Hello'')]), (''twitter'', [(''content'', Str ''Hello'')])]
       = (Inl PageOpenFailed, [NewPage])"
    by (simp add: post_to_all_platforms_def and_then_def facebook_block_def instagram_block_def
          linkedin_block_def requested_examples get_default_def dict_get_def)
  from 1 2 show ?thesis by blast
qed

lemma facebook_example:
  "post_to_facebook full_account sample_web (Str ''Hello'') NoneV =
     ([(''success'', BoolV True), (''platform'', Str ''facebook''), (''post_id'', Str ''42_1''),
       (''url'', Str ''https://facebook.com/42_1'')],
      [HttpGet ''https://graph.facebook.com/v18.0/me/accounts'' [(''access_token'', Str ''token'')],
       HttpPost ''https://graph.facebook.com/v18.0/42/feed''
         [(''message'', Str ''Hello''), (''access_token'', Str ''page-token'')]])"
  by (simp add: post_to_facebook_def full_account_simps sample_web_simps dict_get_def Let_def)

lemma twitter_example:
  "post_to_twitter full_account sample_web (Str ''Hello'') NoneV =
     (Inr (failure (Str ''Timeout 30000ms exceeded'')),
      [NewPage, Goto ''https://twitter.com/i/flow/login'', ClosePage])"
  by (simp add: post_to_twitter_def full_account_simps sample_web_simps with_page_def working_page_def
        image_given_def try_steps_def run_steps_def twitter_post_steps_def)

text \<open>
  Facebook and Twitter are requested; the post to Facebook succeeds, the one to Twitter
  runs into a timeout: two entries, the first a success and the second a failure.
\<close>

theorem post_to_all_platforms_entries_witness:
  "no_adapter_raises full_account sample_web
     [(''facebook'', [(''message'', Str ''Hello'')]), (''twitter'', [(''content'', Str ''Hello'')])]
   \<and> (\<exists>res calls.
         post_to_all_platforms full_account sample_web
           [(''facebook'', [(''message'', Str ''Hello'')]), (''twitter'', [(''content'', Str ''Hello'')])]
           = (Inr res, calls)
         \<and> map fst res = [''facebook'', ''twitter'']
         \<and> map_option Inr (map_of res ''facebook'')
             = Some (Inr [(''success'', BoolV True), (''platform'', Str ''facebook''), (''post_id'', Str ''42_1''),
                          (''url'', Str ''https://facebook.com/42_1'')])
         \<and> map_option Inr (map_of res ''twitter'') = Some (Inr (failure (Str ''Timeout 30000ms exceeded''))))"
proof -
  let ?content = "[(''facebook'', [(''message'', Str ''Hello'')]), (''twitter'', [(''content'', Str ''Hello'')])]"
  have nr: "no_adapter_raises full_account sample_web ?content"
    by (rule pages_no_adapter_raises [OF pages_sample_web])
  from post_to_all_platforms_entries [OF nr]
  obtain res calls where run: "post_to_all_platforms full_account sample_web ?content = (Inr res, calls)"
    and keys: "map fst res = filter (\<lambda>name. requested ?content name \<noteq> None) platforms"
    and each: "\<forall>name\<in>set platforms. map_option Inr (map_of res name) = map_option fst (attempt full_account sample_web ?content name)"
    by blast
  from keys have k: "map fst res = [''facebook'', ''twitter'']"
    by (simp add: platforms_def requested_examples)
  from each have "map_option Inr (map_of res ''facebook'') = map_option fst (attempt full_account sample_web ?content ''facebook'')"
    by (simp add: platforms_def)
  then have f: "map_option Inr (map_of res ''facebook'')
             = Some (Inr [(''success'', BoolV True), (''platform'', Str ''facebook''), (''post_id'', Str ''42_1''),
                          (''url'', Str ''https://facebook.com/42_1'')])"
    by (simp add: attempt_def requested_examples publish_def get_default_def dict_get_def facebook_example)
  from each have "map_option Inr (map_of res ''twitter'') = map_option fst (attempt full_account sample_web ?content ''twitter'')"
    by (simp add: platforms_def)
  then have t: "map_option Inr (map_of res ''twitter'') = Some (Inr (failure (Str ''Timeout 30000ms exceeded'')))"
    by (simp add: attempt_def requested_examples publish_def get_default_def dict_get_def twitter_example)
  have "\<exists>res calls.
         post_to_all_platforms full_account sample_web ?content = (Inr res, calls)
         \<and> map fst res = [''facebook'', ''twitter'']
         \<and> map_option Inr (map_of res ''facebook'')
             = Some (Inr [(''success'', BoolV True), (''platform'', Str ''facebook''), (''post_id'', Str ''42_1''),
                          (''url'', Str ''https://facebook.com/42_1'')])
         \<and> map_option Inr (map_of res ''twitter'') = Some (Inr (failure (Str ''Timeout 30000ms exceeded'')))"
    by (rule exI [of _ res], rule exI [of _ calls]) (simp only: run k f t simp_thms)
  with nr show ?thesis by (rule conjI)
qed

lemma no_credentials_simps:
  "new_page_ok no_credentials" "close_ok no_credentials"
  "getenv no_credentials name = None"
  by (simp_all add: no_credentials_def linkedin_page_of_def)

text \<open>
  Without credentials \<^verbatim>\<open>scrape_linkedin_leads\<close> returns the empty list, which is also
  what it returns for a search without results.
\<close>

theorem scrape_linkedin_leads_missing_credentials_empty:
  "not_set (getenv no_credentials ''LINKEDIN_EMAIL'')
   \<and> fst (scrape_linkedin_leads no_credentials ''founder'' 50 init_scraper) = Inr []
   \<and> fst (scrape_linkedin_leads (linkedin_page_of []) ''founder'' 50 init_scraper) = Inr []"
proof -
  have 1: "not_set (getenv no_credentials ''LINKEDIN_EMAIL'')"
    by (simp add: no_credentials_simps not_set_def)
  have 2: "fst (scrape_linkedin_leads no_credentials ''founder'' 50 init_scraper) = Inr []"
    by (simp add: no_credentials_simps scrape_linkedin_leads_def finish_scrape_def)
  have 3: "fst (scrape_linkedin_leads (linkedin_page_of []) ''founder'' 50 init_scraper) = Inr []"
    by (simp add: linkedin_example_run linkedin_page_of_simps slice_to_def store_leads_fst init_scraper_def)
  from 1 2 3 show ?thesis by blast
qed

text \<open>Runs without credentials: the page is opened and closed, nothing else is called.\<close>

theorem missing_credentials_no_navigation_witness:
  "not_set (getenv no_credentials ''LINKEDIN_EMAIL'')
   \<and> snd (snd (scrape_linkedin_leads no_credentials ''founder'' 50 two_leads)) = [NewPage, ClosePage]
   \<and> fst (snd (scrape_linkedin_leads no_credentials ''founder'' 50 two_leads)) = two_leads
   \<and> not_set (linkedin_email no_account)
   \<and> post_to_linkedin no_account sample_web (Str ''Hello'') NoneV
       = (Inr (failure (Str ''LinkedIn credentials not set'')), [])
   \<and> not_set (twitter_password no_account)
   \<and> post_to_twitter no_account sample_web (Str ''Hello'') NoneV
       = (Inr (failure (Str ''Twitter credentials not set'')), [])
   \<and> not_set (meta_token no_account)
   \<and> post_to_facebook no_account sample_web (Str ''Hello'') NoneV
       = (failure (Str ''META_ACCESS_TOKEN not set''), [])"
proof -
  have h: "not_set (getenv no_credentials ''LINKEDIN_EMAIL'')" "not_set (linkedin_email no_account)"
    "not_set (twitter_password no_account)" "not_set (meta_token no_account)"
    by (simp_all add: no_credentials_simps not_set_def no_account_def)
  have tr: "snd (snd (scrape_linkedin_leads no_credentials ''founder'' 50 two_leads)) = [NewPage, ClosePage]"
    by (simp add: scrape_linkedin_leads_def no_credentials_simps finish_scrape_def)
  note T = missing_credentials_no_navigation
    [where env = no_credentials and q = "''founder''" and m = 50 and s = two_leads and self = no_account
       and penv = sample_web and content = "Str ''Hello''" and image_path = NoneV
       and message = "Str ''Hello''" and image_url = NoneV and caption = "Str ''Hello''"]
  from T h tr show ?thesis by blast
qed

section \<open>Properties of the outreach messages\<close>

subsection \<open>The four templates, formatted\<close>















subsection \<open>Fallbacks\<close>











end
